theory Spec2Isabelle
  imports Main
begin

section \<open>Strings\<close>

text \<open>
  The script works on Python \<open>str\<close> values. They are modelled as \<^typ>\<open>string\<close>, one
  \<^typ>\<open>char\<close> per code point, and the model is exact for ASCII text: the case mappings
  \<open>str.upper\<close> and \<open>str.lower\<close>, the white space of \<open>str.strip\<close> and of the
  regular expression class \<open>\s\<close>, and the digits of \<open>\d\<close> are the ASCII ones. A
  character above 127 is passed through unchanged and belongs to none of the classes,
  whereas Python also maps letters outside ASCII, sometimes to a text of another length,
  and counts some characters outside ASCII as white space. For this reason the theorems
  on the matcher and the aggregator keep \<open>upper\<close> wherever the script applies it, a
  length being the length of the upper-cased text where the script measures that one, and
  the fingerprint is described by the words of the lower-cased title.
\<close>

definition code :: "char \<Rightarrow> nat" where
  "code c = of_char c"

definition is_space :: "char \<Rightarrow> bool" where
  \<comment> \<open>\<open>str.isspace\<close>: TAB, LF, VT, FF, CR, the separators FS, GS, RS, US and the blank.\<close>
  "is_space c = ((9 \<le> code c \<and> code c \<le> 13) \<or> (28 \<le> code c \<and> code c \<le> 32))"

definition is_digit :: "char \<Rightarrow> bool" where
  "is_digit c = (48 \<le> code c \<and> code c \<le> 57)"

definition is_lower :: "char \<Rightarrow> bool" where
  "is_lower c = (97 \<le> code c \<and> code c \<le> 122)"

definition is_upper :: "char \<Rightarrow> bool" where
  "is_upper c = (65 \<le> code c \<and> code c \<le> 90)"

definition is_alnum :: "char \<Rightarrow> bool" where
  \<comment> \<open>\<open>str.isalnum\<close> on one character\<close>
  "is_alnum c = (is_lower c \<or> is_upper c \<or> is_digit c)"

definition upper_char :: "char \<Rightarrow> char" where
  "upper_char c = (if is_lower c then char_of (code c - 32) else c)"

definition lower_char :: "char \<Rightarrow> char" where
  "lower_char c = (if is_upper c then char_of (code c + 32) else c)"

definition upper :: "string \<Rightarrow> string" where
  "upper s = map upper_char s"

definition lower :: "string \<Rightarrow> string" where
  "lower s = map lower_char s"

definition strip :: "string \<Rightarrow> string" where
  \<comment> \<open>\<open>s.strip()\<close>: white space removed at both ends.\<close>
  "strip s = rev (dropWhile is_space (rev (dropWhile is_space s)))"

fun startswith :: "string \<Rightarrow> string \<Rightarrow> bool" where
  \<comment> \<open>\<open>s.startswith(p)\<close>\<close>
  "startswith s [] = True"
| "startswith [] (p # ps) = False"
| "startswith (c # cs) (p # ps) = (c = p \<and> startswith cs ps)"

fun py_in :: "string \<Rightarrow> string \<Rightarrow> bool" where
  \<comment> \<open>\<open>needle in hay\<close>: the needle occurs as a contiguous substring.\<close>
  "py_in needle [] = (needle = [])"
| "py_in needle (h # hs) = (startswith (h # hs) needle \<or> py_in needle hs)"

section \<open>Normalizer\<close>

definition normalize_sku :: "string option \<Rightarrow> string option" where
  "normalize_sku sku =
     (case sku of
        None \<Rightarrow> None
      | Some s \<Rightarrow> if s = [] then None else Some (upper (strip s)))"

definition sub_special :: "char \<Rightarrow> char" where
  \<comment> \<open>\<open>re.sub(r'[^a-z0-9\s]', ' ', fp)\<close> on one character\<close>
  "sub_special c = (if is_lower c \<or> is_digit c \<or> is_space c then c else CHR '' '')"

function collapse_ws :: "string \<Rightarrow> string" where
  \<comment> \<open>\<open>re.sub(r'\s+', ' ', fp)\<close>: every maximal run of white space becomes one blank.\<close>
  "collapse_ws [] = []"
| "collapse_ws (c # cs) =
     (if is_space c then CHR '' '' # collapse_ws (dropWhile is_space cs)
      else c # collapse_ws cs)"
  by pat_completeness auto
termination
  by (relation "measure length") (auto simp: length_dropWhile_le less_Suc_eq_le)

definition fingerprint_title :: "string option \<Rightarrow> string option" where
  "fingerprint_title title =
     (case title of
        None \<Rightarrow> None
      | Some t \<Rightarrow>
          if t = [] then None
          else Some (strip (collapse_ws (map sub_special (lower t)))))"

definition hash_fingerprint :: "(string \<Rightarrow> string) \<Rightarrow> string option \<Rightarrow> string option" where
  \<comment> \<open>The digest \<open>hashlib.sha256(fp.encode()).hexdigest()\<close> is the parameter \<open>sha256_hex\<close>.\<close>
  "hash_fingerprint sha256_hex fp =
     (case fp of
        None \<Rightarrow> None
      | Some f \<Rightarrow> if f = [] then None else Some (sha256_hex f))"

section \<open>Compound SKU parser\<close>

fun re_split :: "string \<Rightarrow> string \<Rightarrow> string list" where
  \<comment> \<open>\<open>re.split(r'[+/]', sku)\<close>, the first argument being the segment read so far\<close>
  "re_split cur [] = [cur]"
| "re_split cur (c # cs) =
     (if c = CHR ''+'' \<or> c = CHR ''/'' then cur # re_split [] cs
      else re_split (cur @ [c]) cs)"

definition before_final_lf :: "string \<Rightarrow> string" where
  \<comment> \<open>Without \<open>re.MULTILINE\<close> the anchor \<open>$\<close> matches at the end of the string and
      before a line feed that ends it: the string up to the place where it matches, for a
      pattern whose last character before \<open>$\<close> cannot be a line feed.\<close>
  "before_final_lf s = (if s \<noteq> [] \<and> last s = CHR 0x0A then butlast s else s)"

definition dot_plus_end :: "string \<Rightarrow> string option" where
  \<comment> \<open>\<open>(.+)$\<close> on the rest of a string: the dot matches no line feed. The result is the
      group.\<close>
  "dot_plus_end r =
     (let g = before_final_lf r
      in if g \<noteq> [] \<and> CHR 0x0A \<notin> set g then Some g else None)"

definition is_x :: "char \<Rightarrow> bool" where
  \<comment> \<open>the letter \<open>x\<close> under \<open>re.IGNORECASE\<close>\<close>
  "is_x c = (c = CHR ''x'' \<or> c = CHR ''X'')"

definition match_qty_prefix :: "string \<Rightarrow> (string \<times> string) option" where
  \<comment> \<open>\<open>re.match(r'^(\d+)x(.+)$', part, re.IGNORECASE)\<close>: groups 1 and 2\<close>
  "match_qty_prefix part =
     (let ds = takeWhile is_digit part in
      if ds = [] then None
      else (case dropWhile is_digit part of
              [] \<Rightarrow> None
            | c # r \<Rightarrow>
                if is_x c then
                  (case dot_plus_end r of None \<Rightarrow> None | Some g \<Rightarrow> Some (ds, g))
                else None))"

definition match_qty_suffix :: "string \<Rightarrow> (string \<times> string) option" where
  \<comment> \<open>\<open>re.match(r'^(.+)\(x(\d+)\)$', part, re.IGNORECASE)\<close>: groups 1 and 2. The
      string is read from its end: an optional final line feed, the closing bracket, the
      digits, the letter, the opening bracket, and before them group 1.\<close>
  "match_qty_suffix part =
     (case rev (before_final_lf part) of
        [] \<Rightarrow> None
      | b # r1 \<Rightarrow>
          if b \<noteq> CHR '')'' then None
          else
            let ds = takeWhile is_digit r1 in
            if ds = [] then None
            else (case dropWhile is_digit r1 of
                    x # ob # r3 \<Rightarrow>
                      if is_x x \<and> ob = CHR ''('' \<and> r3 \<noteq> [] \<and> CHR 0x0A \<notin> set r3
                      then Some (rev r3, rev ds) else None
                  | _ \<Rightarrow> None))"

definition py_int :: "string \<Rightarrow> int" where
  \<comment> \<open>\<open>int(digits)\<close> on a string of decimal digits\<close>
  "py_int ds = foldl (\<lambda>a c. 10 * a + (int (code c) - 48)) 0 ds"

definition parse_part :: "string \<Rightarrow> string \<times> int" where
  \<comment> \<open>the body of the loop, for a stripped and non-empty part\<close>
  "parse_part part =
     (case match_qty_prefix part of
        Some (g1, g2) \<Rightarrow> (strip g2, py_int g1)
      | None \<Rightarrow>
          (case match_qty_suffix part of
             Some (g1, g2) \<Rightarrow> (strip g1, py_int g2)
           | None \<Rightarrow> (part, 1)))"

definition qty_digits :: "string \<Rightarrow> string option" where
  \<comment> \<open>the digits that \<open>parse_part\<close> hands to \<open>int\<close>, if one of the two shapes matches\<close>
  "qty_digits part =
     (case match_qty_prefix part of
        Some (g1, g2) \<Rightarrow> Some g1
      | None \<Rightarrow>
          (case match_qty_suffix part of
             Some (g1, g2) \<Rightarrow> Some g2
           | None \<Rightarrow> None))"

fun parse_parts :: "string list \<Rightarrow> (string \<times> int) list" where
  "parse_parts [] = []"
| "parse_parts (p # ps) =
     (let part = strip p in
      if part = [] then parse_parts ps
      else parse_part part # parse_parts ps)"

definition parse_compound_sku :: "string option \<Rightarrow> (string \<times> int) list" where
  "parse_compound_sku sku =
     (case sku of
        None \<Rightarrow> []
      | Some s \<Rightarrow> if s = [] then [] else parse_parts (re_split [] s))"

section \<open>Records\<close>

text \<open>
  The dictionaries the script passes around, one record per shape. A field whose name
  occurs in two shapes carries a prefix in the later one.
\<close>

record component =
  internal_sku :: string
  description :: string
  brand :: string
  cost_ex_vat_pence :: int
  is_active :: bool
  source_file :: string

record listing =
  item_name :: string
  seller_sku :: string
  asin :: "string option"
  price_pence :: int
  fingerprint :: "string option"
  fingerprint_hash :: "string option"

record bom =
  bundle_sku :: string
  bom_description :: string
  bom_is_active :: bool

record bom_component =
  bom_sku :: string
  component_sku :: string
  qty_required :: int

record listing_memory_entry =
  lm_asin :: "string option"
  sku :: string
  title_fingerprint :: "string option"
  title_fingerprint_hash :: "string option"
  lm_bom_sku :: string
  resolution_source :: string

record unmatched_record =
  u_seller_sku :: string
  u_item_name :: string
  u_asin :: "string option"

record outputs =
  boms :: "bom list"
  bom_components_list :: "bom_component list"
  listing_memory :: "listing_memory_entry list"
  unmatched :: "unmatched_record list"

section \<open>Loading a listing\<close>

record listing_row =
  row_item_name :: string
  row_seller_sku :: string
  row_asin1 :: string
  row_status :: string
  row_price_pence :: int

definition load_listing_row :: "(string \<Rightarrow> string) \<Rightarrow> listing_row \<Rightarrow> listing option" where
  \<comment> \<open>The body of the loop of \<open>load_amazon_listings\<close> on one row of the report whose
      cells are already strings; \<open>None\<close> is a row the loop skips. The conversion of the
      price text to pence is done by the caller of the model.\<close>
  "load_listing_row sha256_hex row =
     (let name = strip (row_item_name row);
          ssku = strip (row_seller_sku row);
          asin1 = strip (row_asin1 row);
          status = strip (row_status row)
      in if name = [] \<or> name = ''nan'' then None
         else if ssku = [] \<or> ssku = ''nan'' then None
         else if lower status = ''inactive'' then None
         else Some \<lparr>item_name = name,
                    seller_sku = ssku,
                    asin = (if asin1 \<noteq> ''nan'' then Some asin1 else None),
                    price_pence = row_price_pence row,
                    fingerprint = fingerprint_title (Some name),
                    fingerprint_hash =
                      hash_fingerprint sha256_hex (fingerprint_title (Some name))\<rparr>)"

section \<open>Catalog deduplication\<close>

fun unique_components :: "string set \<Rightarrow> component list \<Rightarrow> component list" where
  \<comment> \<open>the deduplication loop of \<open>create_component_sql\<close>, with the set \<open>seen_skus\<close>\<close>
  "unique_components seen_skus [] = []"
| "unique_components seen_skus (c # cs) =
     (let sku_upper = upper (internal_sku c) in
      if sku_upper \<notin> seen_skus
      then c # unique_components (insert sku_upper seen_skus) cs
      else unique_components seen_skus cs)"

section \<open>Component matcher\<close>

fun direct_match :: "string \<Rightarrow> component list \<Rightarrow> string option" where
  \<comment> \<open>the loop that returns the first component whose upper-cased SKU is the pattern\<close>
  "direct_match pat [] = None"
| "direct_match pat (c # cs) =
     (if upper (internal_sku c) = pat then Some (internal_sku c)
      else direct_match pat cs)"

fun partial_match :: "string \<Rightarrow> component list \<Rightarrow> string option" where
  "partial_match pattern_upper [] = None"
| "partial_match pattern_upper (c # cs) =
     (let sku_upper = upper (internal_sku c) in
      if py_in pattern_upper sku_upper \<or> py_in sku_upper pattern_upper
      then Some (internal_sku c)
      else partial_match pattern_upper cs)"

definition prefixes :: "string list" where
  "prefixes = [''MAK'', ''DEW'', ''MAKITA'', ''DEWALT'']"

definition add_prefix :: "string \<Rightarrow> string \<Rightarrow> component list \<Rightarrow> string option" where
  \<comment> \<open>"Try adding prefix"\<close>
  "add_prefix prefix pattern_upper all_components =
     (if \<not> startswith pattern_upper prefix
      then direct_match (prefix @ pattern_upper) all_components
      else None)"

definition remove_prefix :: "string \<Rightarrow> string \<Rightarrow> component list \<Rightarrow> string option" where
  \<comment> \<open>"Try removing prefix"\<close>
  "remove_prefix prefix pattern_upper all_components =
     (if startswith pattern_upper prefix
      then direct_match (drop (length prefix) pattern_upper) all_components
      else None)"

fun prefix_match :: "string list \<Rightarrow> string \<Rightarrow> component list \<Rightarrow> string option" where
  \<comment> \<open>the loop over the prefixes\<close>
  "prefix_match [] pattern_upper all_components = None"
| "prefix_match (prefix # ps) pattern_upper all_components =
     (case add_prefix prefix pattern_upper all_components of
        Some s \<Rightarrow> Some s
      | None \<Rightarrow>
          (case remove_prefix prefix pattern_upper all_components of
             Some s \<Rightarrow> Some s
           | None \<Rightarrow> prefix_match ps pattern_upper all_components))"

definition match_component_to_import :: "string \<Rightarrow> component list \<Rightarrow> string option" where
  "match_component_to_import component_pattern all_components =
     (let pattern_upper = upper component_pattern in
      case direct_match pattern_upper all_components of
        Some s \<Rightarrow> Some s
      | None \<Rightarrow>
          (case partial_match pattern_upper all_components of
             Some s \<Rightarrow> Some s
           | None \<Rightarrow> prefix_match prefixes pattern_upper all_components))"

section \<open>Resolution aggregator\<close>

fun match_parsed :: "(string \<times> int) list \<Rightarrow> component list \<Rightarrow> (string \<times> int) list" where
  \<comment> \<open>the loop over the parsed references; \<open>if matched_sku\<close> is false for \<open>None\<close> and
      for the empty string\<close>
  "match_parsed [] all_components = []"
| "match_parsed ((pat, qty) # parsed) all_components =
     (case match_component_to_import pat all_components of
        None \<Rightarrow> match_parsed parsed all_components
      | Some matched_sku \<Rightarrow>
          if matched_sku \<noteq> [] then (matched_sku, qty) # match_parsed parsed all_components
          else match_parsed parsed all_components)"

definition title_overlap :: "string \<Rightarrow> component \<Rightarrow> bool" where
  \<comment> \<open>the two nested tests of the fallback loop\<close>
  "title_overlap title c =
     (if description c \<noteq> [] \<and> title \<noteq> [] then
        (let comp_desc_upper = upper (description c);
             item_upper = upper title
         in length comp_desc_upper > 10 \<and>
            (py_in comp_desc_upper item_upper \<or> py_in item_upper comp_desc_upper))
      else False)"

fun title_match :: "string \<Rightarrow> component list \<Rightarrow> (string \<times> int) list" where
  \<comment> \<open>the fallback loop, left by \<open>break\<close> at the first component it accepts\<close>
  "title_match title [] = []"
| "title_match title (c # cs) =
     (if title_overlap title c then [(internal_sku c, 1)]
      else title_match title cs)"

definition matched_components :: "listing \<Rightarrow> component list \<Rightarrow> (string \<times> int) list" where
  "matched_components l all_components =
     (let m = match_parsed (parse_compound_sku (Some (seller_sku l))) all_components in
      if m = [] then title_match (item_name l) all_components else m)"

definition bom_of :: "listing \<Rightarrow> bom" where
  "bom_of l =
     \<lparr>bundle_sku = seller_sku l,
      bom_description = (if item_name l \<noteq> [] then take 500 (item_name l) else []),
      bom_is_active = True\<rparr>"

definition links_of :: "listing \<Rightarrow> (string \<times> int) list \<Rightarrow> bom_component list" where
  "links_of l m =
     map (\<lambda>(comp_sku, qty).
            \<lparr>bom_sku = seller_sku l, component_sku = comp_sku, qty_required = qty\<rparr>) m"

definition unmatched_of :: "listing \<Rightarrow> (string \<times> int) list \<Rightarrow> unmatched_record list" where
  "unmatched_of l m =
     (if m = []
      then [\<lparr>u_seller_sku = seller_sku l, u_item_name = item_name l, u_asin = asin l\<rparr>]
      else [])"

definition memory_of :: "listing \<Rightarrow> listing_memory_entry" where
  "memory_of l =
     \<lparr>lm_asin = asin l,
      sku = seller_sku l,
      title_fingerprint = fingerprint l,
      title_fingerprint_hash = fingerprint_hash l,
      lm_bom_sku = seller_sku l,
      resolution_source = ''IMPORT''\<rparr>"

definition process_listing :: "component list \<Rightarrow> outputs \<Rightarrow> listing \<Rightarrow> outputs" where
  \<comment> \<open>one round of the loop over the listings: four appends\<close>
  "process_listing all_components out l =
     (let m = matched_components l all_components in
      \<lparr>boms = boms out @ [bom_of l],
       bom_components_list = bom_components_list out @ links_of l m,
       listing_memory = listing_memory out @ [memory_of l],
       unmatched = unmatched out @ unmatched_of l m\<rparr>)"

fun process_listings :: "component list \<Rightarrow> outputs \<Rightarrow> listing list \<Rightarrow> outputs" where
  "process_listings all_components out [] = out"
| "process_listings all_components out (l # ls) =
     process_listings all_components (process_listing all_components out l) ls"

definition create_boms_and_listings :: "listing list \<Rightarrow> component list \<Rightarrow> outputs" where
  \<comment> \<open>The dictionary \<open>component_lookup\<close> that the function builds first is read nowhere
      and is left out.\<close>
  "create_boms_and_listings listings all_components =
     process_listings all_components
       \<lparr>boms = [], bom_components_list = [], listing_memory = [], unmatched = []\<rparr>
       listings"

section \<open>The words of a title\<close>

text \<open>
  A word character is a character of the class \<open>[a-z0-9]\<close>, the one that
  \<open>fingerprint_title\<close> keeps after it has lower-cased the title. The words of a text are
  its maximal runs of word characters, and the words of a title are the words of the
  lower-cased title; \<open>join_blank\<close> is \<open>' '.join\<close>. They describe the fingerprint of a
  title.
\<close>

definition is_word :: "char \<Rightarrow> bool" where
  "is_word c = (is_lower c \<or> is_digit c)"

function words_of :: "string \<Rightarrow> string list" where
  "words_of s =
     (case dropWhile (\<lambda>c. \<not> is_word c) s of
        [] \<Rightarrow> []
      | c # cs \<Rightarrow> (c # takeWhile is_word cs) # words_of (dropWhile is_word cs))"
  by pat_completeness auto
termination
proof (relation "measure length")
  fix s :: string and c cs
  assume "dropWhile (\<lambda>c. \<not> is_word c) s = c # cs"
  then have "length (c # cs) \<le> length s"
    by (metis length_dropWhile_le)
  moreover have "length (dropWhile is_word cs) \<le> length cs"
    by (rule length_dropWhile_le)
  ultimately show "(dropWhile is_word cs, s) \<in> measure length" by simp
qed simp

declare words_of.simps [simp del]

definition title_words :: "string \<Rightarrow> string list" where
  "title_words t = words_of (lower t)"

fun join_blank :: "string list \<Rightarrow> string" where
  "join_blank [] = []"
| "join_blank [w] = w"
| "join_blank (w # v # ws) = w @ CHR '' '' # join_blank (v # ws)"

definition clean :: "string \<Rightarrow> bool" where
  \<comment> \<open>a non-empty string of word characters\<close>
  "clean w = (w \<noteq> [] \<and> (\<forall>c\<in>set w. is_word c))"

definition rstrip :: "string \<Rightarrow> string" where
  \<comment> \<open>white space removed at the end only\<close>
  "rstrip s = rev (dropWhile is_space (rev s))"

section \<open>The matcher and the fallback in the words of the specification\<close>

text \<open>
  The specification describes the matcher as a list of tiers tried in order, each tier
  returning the SKU of the first component of the catalog that passes a test, the
  fallback as a test on the description of a component, and the result of the resolution
  as four collections built from the listings one after the other. These definitions
  follow its words; the theorems below compare them with the functions of the script.
\<close>

definition first_sku :: "(component \<Rightarrow> bool) \<Rightarrow> component list \<Rightarrow> string option" where
  "first_sku P catalog = map_option internal_sku (find P catalog)"

definition exact_tier :: "string \<Rightarrow> component list \<Rightarrow> string option" where
  "exact_tier pat = first_sku (\<lambda>c. upper (internal_sku c) = pat)"

definition containment_tier :: "string \<Rightarrow> component list \<Rightarrow> string option" where
  "containment_tier pat =
     first_sku (\<lambda>c. py_in pat (upper (internal_sku c)) \<or> py_in (upper (internal_sku c)) pat)"

definition add_prefix_tier :: "string \<Rightarrow> string \<Rightarrow> component list \<Rightarrow> string option" where
  "add_prefix_tier prefix pat =
     (if startswith pat prefix then (\<lambda>catalog. None) else exact_tier (prefix @ pat))"

definition strip_prefix_tier :: "string \<Rightarrow> string \<Rightarrow> component list \<Rightarrow> string option" where
  "strip_prefix_tier prefix pat =
     (if startswith pat prefix then exact_tier (drop (length prefix) pat) else (\<lambda>catalog. None))"

definition tiers :: "string \<Rightarrow> (component list \<Rightarrow> string option) list" where
  "tiers pat =
     [exact_tier pat, containment_tier pat] @
     concat (map (\<lambda>prefix. [add_prefix_tier prefix pat, strip_prefix_tier prefix pat])
       [''MAK'', ''DEW'', ''MAKITA'', ''DEWALT''])"

fun first_hit :: "(component list \<Rightarrow> string option) list \<Rightarrow> component list \<Rightarrow> string option" where
  "first_hit [] catalog = None"
| "first_hit (t # ts) catalog =
     (case t catalog of Some s \<Rightarrow> Some s | None \<Rightarrow> first_hit ts catalog)"

definition matchComponent :: "string \<Rightarrow> component list \<Rightarrow> string option" where
  "matchComponent pat catalog = first_hit (tiers (upper pat)) catalog"

definition title_accept :: "string \<Rightarrow> component \<Rightarrow> bool" where
  \<comment> \<open>The test of the fallback: the title is not empty, the upper-cased description is
      longer than 10 characters, and one of the two upper-cased texts contains the other.\<close>
  "title_accept title c =
     (title \<noteq> [] \<and> length (upper (description c)) > 10 \<and>
      (py_in (upper (description c)) (upper title) \<or>
       py_in (upper title) (upper (description c))))"

definition reference_matched :: "component list \<Rightarrow> string \<times> int \<Rightarrow> bool" where
  \<comment> \<open>A reference is matched when the matcher returns a SKU for its pattern, and the SKU
      is not the empty one, which the aggregator does not count.\<close>
  "reference_matched cat r =
     (case match_component_to_import (fst r) cat of None \<Rightarrow> False | Some s \<Rightarrow> s \<noteq> [])"

definition reference_links :: "listing \<Rightarrow> component list \<Rightarrow> bom_component list" where
  \<comment> \<open>one link per matched reference, in the order of the references, with the quantity
      of the reference\<close>
  "reference_links l cat =
     concat (map (\<lambda>(p, q).
         case match_component_to_import p cat of
           None \<Rightarrow> []
         | Some s \<Rightarrow>
             if s = [] then []
             else [\<lparr>bom_sku = seller_sku l, component_sku = s, qty_required = q\<rparr>])
       (parse_compound_sku (Some (seller_sku l))))"

definition fallback_links :: "listing \<Rightarrow> component list \<Rightarrow> bom_component list" where
  \<comment> \<open>the link to the first component that the fallback accepts, with quantity 1\<close>
  "fallback_links l cat =
     (case find (title_overlap (item_name l)) cat of
        None \<Rightarrow> []
      | Some c \<Rightarrow> [\<lparr>bom_sku = seller_sku l, component_sku = internal_sku c, qty_required = 1\<rparr>])"

definition listing_links :: "listing \<Rightarrow> component list \<Rightarrow> bom_component list" where
  \<comment> \<open>the links of one listing: the fallback is tried when no reference is matched\<close>
  "listing_links l cat =
     (if reference_links l cat = [] then fallback_links l cat else reference_links l cat)"

definition zero_matches :: "listing \<Rightarrow> component list \<Rightarrow> bool" where
  \<comment> \<open>zero matches, the fallback included: no reference of the listing is matched and the
      fallback accepts no component of the catalog\<close>
  "zero_matches l cat =
     ((\<forall>r\<in>set (parse_compound_sku (Some (seller_sku l))). \<not> reference_matched cat r) \<and>
      (\<forall>c\<in>set cat. \<not> title_overlap (item_name l) c))"

definition unmatched_record_of :: "listing \<Rightarrow> unmatched_record" where
  "unmatched_record_of l =
     \<lparr>u_seller_sku = seller_sku l, u_item_name = item_name l, u_asin = asin l\<rparr>"

definition resolve :: "listing list \<Rightarrow> component list \<Rightarrow> outputs" where
  \<comment> \<open>one BOM and one listing memory entry per listing, the links of the listings, and one
      unmatched record per listing with zero matches\<close>
  "resolve ls cat =
     \<lparr>boms = map (\<lambda>l. \<lparr>bundle_sku = seller_sku l, bom_description = take 500 (item_name l),
                        bom_is_active = True\<rparr>) ls,
      bom_components_list = concat (map (\<lambda>l. listing_links l cat) ls),
      listing_memory =
        map (\<lambda>l. \<lparr>lm_asin = asin l, sku = seller_sku l, title_fingerprint = fingerprint l,
                  title_fingerprint_hash = fingerprint_hash l, lm_bom_sku = seller_sku l,
                  resolution_source = ''IMPORT''\<rparr>) ls,
      unmatched = map unmatched_record_of (filter (\<lambda>l. zero_matches l cat) ls)\<rparr>"

section \<open>Example data\<close>

definition cat_dcb :: "component list" where
  "cat_dcb =
     [\<lparr>internal_sku = ''DEWDCB'', description = ''Battery pack'', brand = ''DeWalt'',
       cost_ex_vat_pence = 100, is_active = True, source_file = ''DEW''\<rparr>,
      \<lparr>internal_sku = ''dcb'', description = ''Battery'', brand = ''DeWalt'',
       cost_ex_vat_pence = 200, is_active = True, source_file = ''DEW''\<rparr>]"

definition dup_listing :: listing where
  "dup_listing =
     \<lparr>item_name = ''Makita Drill 18V'', seller_sku = ''ZZZ999'', asin = Some ''B000000001'',
      price_pence = 9999, fingerprint = Some ''makita drill 18v'', fingerprint_hash = None\<rparr>"

definition dup_catalog :: "component list" where
  "dup_catalog =
     [\<lparr>internal_sku = ''ABC'', description = '''', brand = ''Makita'',
       cost_ex_vat_pence = 100, is_active = True, source_file = ''MAK''\<rparr>,
      \<lparr>internal_sku = ''ABC'', description = ''Makita Drill 18V'', brand = ''DeWalt'',
       cost_ex_vat_pence = 999, is_active = True, source_file = ''DEW''\<rparr>]"

definition untitled_listing :: listing where
  "untitled_listing =
     \<lparr>item_name = [], seller_sku = ''ZZZ999'', asin = None,
      price_pence = 9999, fingerprint = None, fingerprint_hash = None\<rparr>"

definition bundle_listing :: listing where
  "bundle_listing =
     \<lparr>item_name = ''Makita kit'', seller_sku = ''MAKDJR186+2xBL1850'', asin = None,
      price_pence = 19999, fingerprint = Some ''makita kit'', fingerprint_hash = None\<rparr>"

definition bundle_catalog :: "component list" where
  "bundle_catalog =
     [\<lparr>internal_sku = ''MAKDJR186'', description = ''Reciprocating saw'', brand = ''Makita'',
       cost_ex_vat_pence = 100, is_active = True, source_file = ''MAK''\<rparr>,
      \<lparr>internal_sku = ''BL1850'', description = ''Battery 5.0Ah'', brand = ''Makita'',
       cost_ex_vat_pence = 999, is_active = True, source_file = ''MAK''\<rparr>]"

section \<open>The parser: quantities, the example, empty segments\<close>

lemma is_space_blank: "is_space (CHR '' '')"
  by (simp add: is_space_def code_def)

lemma strip_all_space: "\<forall>c\<in>set u. is_space c \<Longrightarrow> strip (collapse_ws u) = []"
proof (cases u)
  case Nil
  then show ?thesis by (simp add: strip_def)
next
  case (Cons c cs)
  assume a: "\<forall>c\<in>set u. is_space c"
  with Cons have d: "dropWhile is_space cs = []" by simp
  from Cons a have "is_space c" by simp
  then have "collapse_ws (c # cs) = CHR '' '' # collapse_ws (dropWhile is_space cs)" by simp
  also have "\<dots> = [CHR '' '']" by (simp only: d collapse_ws.simps)
  finally show ?thesis using Cons by (simp add: strip_def is_space_blank)
qed

lemma sub_special_lower_nonalnum: "\<not> is_alnum c \<Longrightarrow> is_space (sub_special (lower_char c))"
  by (simp add: is_alnum_def sub_special_def lower_char_def is_space_blank)

lemma parse_parts_filter:
  "parse_parts ps = map parse_part (filter (\<lambda>p. p \<noteq> []) (map strip ps))"
  by (induction ps) (simp_all add: Let_def)

lemma py_int_foldl_nonneg:
  "0 \<le> a \<Longrightarrow> \<forall>d\<in>set ds. is_digit d \<Longrightarrow>
     0 \<le> foldl (\<lambda>a c. 10 * a + (int (code c) - 48)) a ds"
proof (induction ds arbitrary: a)
  case Nil
  then show ?case by simp
next
  case (Cons d ds)
  then have "48 \<le> code d" by (simp add: is_digit_def)
  with Cons.prems have "0 \<le> 10 * a + (int (code d) - 48)" by simp
  with Cons show ?case by simp
qed

lemma digit_zero_iff: "is_digit d \<Longrightarrow> (int (code d) - 48 = 0) = (d = CHR ''0'')"
proof -
  have "code (CHR ''0'') = 48" by (simp add: code_def)
  moreover have "code d = code (CHR ''0'') \<longleftrightarrow> d = CHR ''0''"
    unfolding code_def by (rule of_char_eq_iff)
  ultimately show ?thesis by auto
qed

lemma py_int_foldl_zero:
  "0 \<le> a \<Longrightarrow> \<forall>d\<in>set ds. is_digit d \<Longrightarrow>
     (foldl (\<lambda>a c. 10 * a + (int (code c) - 48)) a ds = 0) = (a = 0 \<and> (\<forall>d\<in>set ds. d = CHR ''0''))"
proof (induction ds arbitrary: a)
  case Nil
  then show ?case by simp
next
  case (Cons d ds)
  then have d: "is_digit d" by simp
  then have ge: "0 \<le> int (code d) - 48" by (simp add: is_digit_def)
  with Cons.prems have nn: "0 \<le> 10 * a + (int (code d) - 48)" by simp
  have "(10 * a + (int (code d) - 48) = 0) = (a = 0 \<and> d = CHR ''0'')"
    using ge Cons.prems(1) digit_zero_iff [OF d] by auto
  with Cons.IH [OF nn] Cons.prems show ?case by auto
qed

lemma py_int_nonneg: "\<forall>d\<in>set ds. is_digit d \<Longrightarrow> 0 \<le> py_int ds"
  unfolding py_int_def by (rule py_int_foldl_nonneg) simp_all

lemma py_int_zero: "\<forall>d\<in>set ds. is_digit d \<Longrightarrow> (py_int ds = 0) = (\<forall>d\<in>set ds. d = CHR ''0'')"
  unfolding py_int_def by (subst py_int_foldl_zero) simp_all

lemma match_qty_prefix_digits:
  "match_qty_prefix part = Some (ds, g) \<Longrightarrow> ds \<noteq> [] \<and> (\<forall>d\<in>set ds. is_digit d)"
  by (auto simp: match_qty_prefix_def Let_def split: if_splits list.splits option.splits
      dest: set_takeWhileD)

lemma match_qty_suffix_digits:
  assumes "match_qty_suffix part = Some (g, ds)"
  shows "ds \<noteq> [] \<and> (\<forall>d\<in>set ds. is_digit d)"
proof (cases "rev (before_final_lf part)")
  case Nil
  with assms show ?thesis by (simp add: match_qty_suffix_def)
next
  case (Cons b r1)
  with assms have "takeWhile is_digit r1 \<noteq> []" "ds = rev (takeWhile is_digit r1)"
    by (auto simp: match_qty_suffix_def Let_def split: if_splits list.splits)
  then show ?thesis by (auto dest: set_takeWhileD)
qed

lemma parse_part_quantity:
  "snd (parse_part part) =
     (case qty_digits part of None \<Rightarrow> 1 | Some ds \<Rightarrow> py_int ds)"
  by (simp add: parse_part_def qty_digits_def split: option.splits prod.splits)

lemma qty_digits_digits:
  "qty_digits part = Some ds \<Longrightarrow> ds \<noteq> [] \<and> (\<forall>d\<in>set ds. is_digit d)"
  by (auto simp: qty_digits_def split: option.splits prod.splits
      dest: match_qty_prefix_digits match_qty_suffix_digits)

lemma positive_iff_not_all:
  "0 \<le> (q::int) \<Longrightarrow> (q = 0) = (\<forall>d\<in>S. d = z) \<Longrightarrow> (1 \<le> q) = (\<exists>d\<in>S. d \<noteq> z)"
  by auto

text \<open>
  Claim C4, as the code has it. Every pair that \<open>parse_compound_sku\<close> returns comes from a
  non-empty part. If neither quantity shape matches the part, the quantity is 1. If one
  matches, the quantity is the decimal value of the digits of the marker: it is never
  negative, and it is at least 1 exactly when one of the digits is not \<open>0\<close>.
\<close>

theorem parse_quantity:
  assumes "(p, q) \<in> set (parse_compound_sku inp)"
  shows "\<exists>part. part \<noteq> [] \<and> parse_part part = (p, q) \<and>
           (case qty_digits part of
              None \<Rightarrow> q = 1
            | Some ds \<Rightarrow> ds \<noteq> [] \<and> (\<forall>d\<in>set ds. is_digit d) \<and> q = py_int ds \<and> 0 \<le> q \<and>
                (1 \<le> q) = (\<exists>d\<in>set ds. d \<noteq> CHR ''0''))"
proof -
  from assms obtain s where "(p, q) \<in> set (parse_parts (re_split [] s))"
    by (auto simp: parse_compound_sku_def split: option.splits if_splits)
  then obtain part where part: "part \<noteq> []" "parse_part part = (p, q)"
    by (auto simp: parse_parts_filter)
  from parse_part_quantity [of part] part(2)
  have q: "q = (case qty_digits part of None \<Rightarrow> 1 | Some ds \<Rightarrow> py_int ds)" by simp
  have "case qty_digits part of
              None \<Rightarrow> q = 1
            | Some ds \<Rightarrow> ds \<noteq> [] \<and> (\<forall>d\<in>set ds. is_digit d) \<and> q = py_int ds \<and> 0 \<le> q \<and>
                (1 \<le> q) = (\<exists>d\<in>set ds. d \<noteq> CHR ''0'')"
  proof (cases "qty_digits part")
    case None
    with q show ?thesis by simp
  next
    case (Some ds)
    from qty_digits_digits [OF Some] have ds: "ds \<noteq> []" "\<forall>d\<in>set ds. is_digit d" by simp_all
    from Some q have q': "q = py_int ds" by simp
    from py_int_nonneg [OF ds(2)] q' have nn: "0 \<le> q" by simp
    from py_int_zero [OF ds(2)] q' have "(q = 0) = (\<forall>d\<in>set ds. d = CHR ''0'')" by simp
    with nn have "(1 \<le> q) = (\<exists>d\<in>set ds. d \<noteq> CHR ''0'')" by (rule positive_iff_not_all)
    with Some ds q' nn show ?thesis by simp
  qed
  with part show ?thesis by blast
qed

theorem parse_quantity_witness:
  "\<exists>part. part \<noteq> [] \<and> parse_part part = (''BL1850'', 2) \<and>
           (case qty_digits part of
              None \<Rightarrow> (2::int) = 1
            | Some ds \<Rightarrow> ds \<noteq> [] \<and> (\<forall>d\<in>set ds. is_digit d) \<and> 2 = py_int ds \<and> 0 \<le> (2::int) \<and>
                (1 \<le> (2::int)) = (\<exists>d\<in>set ds. d \<noteq> CHR ''0''))"
proof -
  have "parse_compound_sku (Some ''MAKDJR186+2xBL1850'') = [(''MAKDJR186'', 1), (''BL1850'', 2)]"
    by code_simp
  then have "(''BL1850'', 2) \<in> set (parse_compound_sku (Some ''MAKDJR186+2xBL1850''))"
    by simp
  from parse_quantity [OF this] show ?thesis .
qed

text \<open>
  The part \<open>0xABC\<close> has the prefix shape with the digits \<open>0\<close>: the reference returned has
  quantity 0.
\<close>

theorem parse_quantity_zero: "parse_compound_sku (Some ''0xABC'') = [(''ABC'', 0)]"
  by code_simp

text \<open>
  Claim C6. The compound SKU of the specification is parsed into its three references, in
  the order of the input. The prefix shape is tried first: whenever it matches, its groups
  give the result, also for a part such as \<open>2xAB(x3)\<close> that has the suffix shape too.
\<close>

theorem parse_example:
  "parse_compound_sku (Some ''MAKDJR186+2xBL1850+DC18RC(x3)'') =
     [(''MAKDJR186'', 1), (''BL1850'', 2), (''DC18RC'', 3)] \<and>
   parse_compound_sku (Some ''2xAB(x3)'') = [(''AB(x3)'', 2)] \<and>
   (\<forall>part g1 g2. match_qty_prefix part = Some (g1, g2) \<longrightarrow>
      parse_part part = (strip g2, py_int g1))"
proof (intro conjI allI impI)
  show "parse_compound_sku (Some ''MAKDJR186+2xBL1850+DC18RC(x3)'') =
     [(''MAKDJR186'', 1), (''BL1850'', 2), (''DC18RC'', 3)]" by code_simp
  show "parse_compound_sku (Some ''2xAB(x3)'') = [(''AB(x3)'', 2)]" by code_simp
  fix part g1 g2 assume "match_qty_prefix part = Some (g1, g2)"
  then show "parse_part part = (strip g2, py_int g1)" by (simp add: parse_part_def)
qed

theorem parse_example_witness:
  "match_qty_prefix ''2xAB(x3)'' = Some (''2'', ''AB(x3)'') \<and>
   match_qty_suffix ''2xAB(x3)'' = Some (''2xAB'', ''3'') \<and>
   parse_part ''2xAB(x3)'' = (strip ''AB(x3)'', py_int ''2'')"
proof -
  have h: "match_qty_prefix ''2xAB(x3)'' = Some (''2'', ''AB(x3)'')" by code_simp
  have s: "match_qty_suffix ''2xAB(x3)'' = Some (''2xAB'', ''3'')" by code_simp
  from parse_example h have "parse_part ''2xAB(x3)'' = (strip ''AB(x3)'', py_int ''2'')" by blast
  with h s show ?thesis by simp
qed

text \<open>
  Claim C7. No input and the empty input give the empty list. For every input the result
  is \<open>parse_part\<close> applied, in order, to the stripped segments that are not empty: a
  segment that is empty after stripping leaves no trace.
\<close>

theorem parse_empty_safe:
  "parse_compound_sku None = [] \<and>
   parse_compound_sku (Some []) = [] \<and>
   parse_compound_sku (Some s) =
     map parse_part (filter (\<lambda>p. p \<noteq> []) (map strip (re_split [] s))) \<and>
   parse_compound_sku (Some ''+A// +B/'') = [(''A'', 1), (''B'', 1)]"
proof (intro conjI)
  show "parse_compound_sku (Some s) =
     map parse_part (filter (\<lambda>p. p \<noteq> []) (map strip (re_split [] s)))"
    by (cases s) (simp_all add: parse_compound_sku_def parse_parts_filter strip_def)
  show "parse_compound_sku (Some ''+A// +B/'') = [(''A'', 1), (''B'', 1)]" by code_simp
qed (simp_all add: parse_compound_sku_def)

section \<open>Titles without letters or digits\<close>

text \<open>
  Claim C10. A non-empty title without a letter or digit has the fingerprint \<open>""\<close>, not
  \<open>None\<close>; the hash of the empty fingerprint is \<open>None\<close>; so a listing loaded with such a
  title carries the fingerprint \<open>""\<close> and no hash, and so does its listing memory entry.
\<close>

theorem fingerprint_no_alnum:
  assumes "t \<noteq> []" and "\<forall>c\<in>set t. \<not> is_alnum c"
  shows "fingerprint_title (Some t) = Some [] \<and>
         hash_fingerprint sha256_hex (Some []) = None \<and>
         (\<forall>row l. load_listing_row sha256_hex row = Some l \<and> item_name l = t \<longrightarrow>
            fingerprint l = Some [] \<and> fingerprint_hash l = None \<and>
            title_fingerprint (memory_of l) = Some [] \<and>
            title_fingerprint_hash (memory_of l) = None)"
proof -
  from assms(2) have "\<forall>c\<in>set (map sub_special (lower t)). is_space c"
    by (simp add: lower_def sub_special_lower_nonalnum)
  from strip_all_space [OF this] assms(1)
  have fp: "fingerprint_title (Some t) = Some []" by (simp add: fingerprint_title_def)
  have h: "hash_fingerprint sha256_hex (Some []) = None" by (simp add: hash_fingerprint_def)
  have "fingerprint l = Some [] \<and> fingerprint_hash l = None \<and>
            title_fingerprint (memory_of l) = Some [] \<and>
            title_fingerprint_hash (memory_of l) = None"
    if "load_listing_row sha256_hex row = Some l" "item_name l = t" for row l
  proof -
    from that have "fingerprint l = fingerprint_title (Some t)"
      "fingerprint_hash l = hash_fingerprint sha256_hex (fingerprint_title (Some t))"
      by (auto simp: load_listing_row_def Let_def split: if_splits)
    with fp h show ?thesis by (simp add: memory_of_def)
  qed
  with fp h show ?thesis by blast
qed

theorem fingerprint_no_alnum_witness:
  "fingerprint_title (Some ''!!!'') = Some [] \<and>
   hash_fingerprint (\<lambda>f. f) (Some []) = None \<and>
   fingerprint (the (load_listing_row (\<lambda>f. f)
       \<lparr>row_item_name = ''!!!'', row_seller_sku = ''A1'', row_asin1 = ''B0'',
        row_status = ''Active'', row_price_pence = 100\<rparr>)) = Some [] \<and>
   fingerprint_hash (the (load_listing_row (\<lambda>f. f)
       \<lparr>row_item_name = ''!!!'', row_seller_sku = ''A1'', row_asin1 = ''B0'',
        row_status = ''Active'', row_price_pence = 100\<rparr>)) = None"
proof -
  let ?row = "\<lparr>row_item_name = ''!!!'', row_seller_sku = ''A1'', row_asin1 = ''B0'',
        row_status = ''Active'', row_price_pence = 100\<rparr>"
  have a: "''!!!'' \<noteq> []" by simp
  have b: "\<forall>c\<in>set ''!!!''. \<not> is_alnum c"
    by (simp add: is_alnum_def is_lower_def is_upper_def is_digit_def code_def)
  have s1: "strip ''!!!'' = ''!!!''" by code_simp
  have s2: "strip ''A1'' = ''A1''" by code_simp
  have s3: "strip ''B0'' = ''B0''" by code_simp
  have s4: "lower (strip ''Active'') = ''active''" by code_simp
  obtain l where l: "load_listing_row (\<lambda>f. f) ?row = Some l" "item_name l = ''!!!''"
    by (simp add: load_listing_row_def Let_def s1 s2 s3 s4)
  from fingerprint_no_alnum [OF a b, of "\<lambda>f. f"]
  have "fingerprint_title (Some ''!!!'') = Some []"
    "hash_fingerprint (\<lambda>f. f) (Some []) = None"
    "fingerprint l = Some [] \<and> fingerprint_hash l = None"
    using l by blast+
  with l(1) show ?thesis by simp
qed

section \<open>The matcher\<close>

lemma direct_match_first: "direct_match pat cat = exact_tier pat cat"
  by (induction cat) (simp_all add: exact_tier_def first_sku_def)

lemma partial_match_first: "partial_match pat cat = containment_tier pat cat"
  by (induction cat) (simp_all add: containment_tier_def first_sku_def Let_def)

lemma add_prefix_tier: "add_prefix prefix pat cat = add_prefix_tier prefix pat cat"
  by (simp add: add_prefix_def add_prefix_tier_def direct_match_first)

lemma remove_prefix_tier: "remove_prefix prefix pat cat = strip_prefix_tier prefix pat cat"
  by (simp add: remove_prefix_def strip_prefix_tier_def direct_match_first)

lemma prefix_match_first:
  "prefix_match ps pat cat =
     first_hit (concat (map (\<lambda>prefix. [add_prefix_tier prefix pat, strip_prefix_tier prefix pat]) ps)) cat"
  by (induction ps) (simp_all add: add_prefix_tier remove_prefix_tier split: option.split)

lemma tiers_prefixes:
  "tiers pat =
     exact_tier pat # containment_tier pat #
     concat (map (\<lambda>prefix. [add_prefix_tier prefix pat, strip_prefix_tier prefix pat]) prefixes)"
  by (simp only: tiers_def prefixes_def append.simps)

lemma match_component_tiers: "match_component_to_import p cat = matchComponent p cat"
  by (simp add: match_component_to_import_def matchComponent_def tiers_prefixes Let_def
      direct_match_first partial_match_first prefix_match_first split: option.split)

lemma first_hit_None: "(first_hit ts cat = None) = (\<forall>t\<in>set ts. t cat = None)"
  by (induction ts) (auto split: option.splits)

text \<open>
  Claim C3. \<open>match_component_to_import\<close> is the first hit of the tiers in the order of the
  specification: exact match, containment in either direction, then for each of the
  prefixes MAK, DEW, MAKITA, DEWALT the pattern with the prefix added and the pattern with
  the prefix removed, each tier returning the first component in catalog order. A component
  whose upper-cased SKU equals the upper-cased pattern is returned whatever the later tiers
  would find, and the result is \<open>None\<close> exactly when no tier hits.
\<close>

theorem match_tier_order:
  "match_component_to_import p cat = matchComponent p cat \<and>
   (\<forall>c. find (\<lambda>c. upper (internal_sku c) = upper p) cat = Some c \<longrightarrow>
      match_component_to_import p cat = Some (internal_sku c)) \<and>
   ((match_component_to_import p cat = None) = (\<forall>t\<in>set (tiers (upper p)). t cat = None))"
proof (intro conjI allI impI)
  show "match_component_to_import p cat = matchComponent p cat"
    by (rule match_component_tiers)
  show "(match_component_to_import p cat = None) = (\<forall>t\<in>set (tiers (upper p)). t cat = None)"
    by (simp only: match_component_tiers matchComponent_def first_hit_None)
  fix c assume "find (\<lambda>c. upper (internal_sku c) = upper p) cat = Some c"
  then have "direct_match (upper p) cat = Some (internal_sku c)"
    by (simp add: direct_match_first exact_tier_def first_sku_def)
  then show "match_component_to_import p cat = Some (internal_sku c)"
    by (simp add: match_component_to_import_def)
qed

theorem match_tier_order_witness:
  "find (\<lambda>c. upper (internal_sku c) = upper ''DCB'') cat_dcb = Some (cat_dcb ! 1) \<and>
   match_component_to_import ''DCB'' cat_dcb = Some ''dcb'' \<and>
   containment_tier (upper ''DCB'') cat_dcb = Some ''DEWDCB''"
proof -
  have f: "find (\<lambda>c. upper (internal_sku c) = upper ''DCB'') cat_dcb = Some (cat_dcb ! 1)"
    unfolding cat_dcb_def by code_simp
  have i: "internal_sku (cat_dcb ! 1) = ''dcb''"
    unfolding cat_dcb_def by simp
  have c: "containment_tier (upper ''DCB'') cat_dcb = Some ''DEWDCB''"
    unfolding cat_dcb_def containment_tier_def first_sku_def by code_simp
  from match_tier_order [of "''DCB''" cat_dcb] f
  have "match_component_to_import ''DCB'' cat_dcb = Some (internal_sku (cat_dcb ! 1))" by blast
  with f i c show ?thesis by simp
qed

section \<open>The aggregator\<close>

subsection \<open>The loop over the listings\<close>

lemma process_listings_append:
  "process_listings cat out ls =
     \<lparr>boms = boms out @ map bom_of ls,
      bom_components_list =
        bom_components_list out @ concat (map (\<lambda>l. links_of l (matched_components l cat)) ls),
      listing_memory = listing_memory out @ map memory_of ls,
      unmatched =
        unmatched out @ concat (map (\<lambda>l. unmatched_of l (matched_components l cat)) ls)\<rparr>"
  by (induction ls arbitrary: out) (simp_all add: process_listing_def Let_def)

lemma create_boms_and_listings_eq:
  "create_boms_and_listings ls cat =
     \<lparr>boms = map bom_of ls,
      bom_components_list = concat (map (\<lambda>l. links_of l (matched_components l cat)) ls),
      listing_memory = map memory_of ls,
      unmatched = concat (map (\<lambda>l. unmatched_of l (matched_components l cat)) ls)\<rparr>"
  by (simp add: create_boms_and_listings_def process_listings_append)

lemma first_sku_in_catalog: "first_sku P cat = Some s \<Longrightarrow> s \<in> internal_sku ` set cat"
  by (auto simp: first_sku_def find_Some_iff)

lemma first_hit_Some: "first_hit ts cat = Some s \<Longrightarrow> \<exists>t\<in>set ts. t cat = Some s"
  by (induction ts) (auto split: option.splits)

lemma tiers_in_catalog: "t \<in> set (tiers pat) \<Longrightarrow> t cat = Some s \<Longrightarrow> s \<in> internal_sku ` set cat"
  unfolding tiers_def exact_tier_def containment_tier_def add_prefix_tier_def
    strip_prefix_tier_def
  by (auto split: if_splits dest: first_sku_in_catalog)

lemma match_in_catalog:
  "match_component_to_import p cat = Some s \<Longrightarrow> s \<in> internal_sku ` set cat"
  unfolding match_component_tiers matchComponent_def
  by (blast dest: first_hit_Some tiers_in_catalog)

lemma title_match_find:
  "title_match title cat =
     (case find (title_overlap title) cat of None \<Rightarrow> [] | Some c \<Rightarrow> [(internal_sku c, 1)])"
  by (induction cat) simp_all

subsection \<open>The four collections\<close>

lemma links_of_match_parsed:
  "links_of l (match_parsed ps cat) =
     concat (map (\<lambda>(p, q).
         case match_component_to_import p cat of
           None \<Rightarrow> []
         | Some s \<Rightarrow>
             if s = [] then []
             else [\<lparr>bom_sku = seller_sku l, component_sku = s, qty_required = q\<rparr>]) ps)"
  by (induction ps cat rule: match_parsed.induct)
     (simp_all add: links_of_def split: option.split)

lemma links_of_Nil_iff: "(links_of l m = []) = (m = [])"
  by (simp add: links_of_def)

lemma links_of_title_match: "links_of l (title_match (item_name l) cat) = fallback_links l cat"
  by (simp add: title_match_find fallback_links_def links_of_def split: option.split)

lemma links_of_matched: "links_of l (matched_components l cat) = listing_links l cat"
proof -
  let ?m = "match_parsed (parse_compound_sku (Some (seller_sku l))) cat"
  have r: "links_of l ?m = reference_links l cat"
    by (simp only: links_of_match_parsed reference_links_def)
  show ?thesis
  proof (cases "?m = []")
    case True
    then have "reference_links l cat = []" using r by (simp add: links_of_def)
    with True show ?thesis
      by (simp add: matched_components_def listing_links_def links_of_title_match)
  next
    case False
    then have "reference_links l cat \<noteq> []" using r links_of_Nil_iff [of l ?m] by simp
    with False r show ?thesis
      by (simp add: matched_components_def listing_links_def)
  qed
qed

lemma match_parsed_Nil_iff:
  "(match_parsed ps cat = []) = (\<forall>r\<in>set ps. \<not> reference_matched cat r)"
  by (induction ps cat rule: match_parsed.induct)
     (simp_all add: reference_matched_def split: option.split)

lemma title_match_Nil_iff: "(title_match title cat = []) = (\<forall>c\<in>set cat. \<not> title_overlap title c)"
  by (induction cat) simp_all

lemma matched_components_Nil_iff: "(matched_components l cat = []) = zero_matches l cat"
  by (auto simp: matched_components_def zero_matches_def Let_def match_parsed_Nil_iff
      title_match_Nil_iff)

lemma listing_links_Nil_iff: "(listing_links l cat = []) = zero_matches l cat"
  by (simp only: links_of_matched [symmetric] links_of_Nil_iff matched_components_Nil_iff)

lemma unmatched_of_matched:
  "unmatched_of l (matched_components l cat) =
     (if zero_matches l cat then [unmatched_record_of l] else [])"
  by (simp add: unmatched_of_def matched_components_Nil_iff unmatched_record_of_def)

lemma concat_map_if: "concat (map (\<lambda>x. if P x then [f x] else []) xs) = map f (filter P xs)"
  by (induction xs) simp_all

lemma bom_of_eq:
  "bom_of l = \<lparr>bundle_sku = seller_sku l, bom_description = take 500 (item_name l),
               bom_is_active = True\<rparr>"
  by (simp add: bom_of_def)

lemma create_resolve: "create_boms_and_listings ls cat = resolve ls cat"
  by (simp add: create_boms_and_listings_eq resolve_def links_of_matched unmatched_of_matched
      concat_map_if bom_of_eq memory_of_def)

lemma reference_links_Nil_iff:
  "(reference_links l cat = []) =
     (\<forall>r\<in>set (parse_compound_sku (Some (seller_sku l))). \<not> reference_matched cat r)"
proof -
  have "reference_links l cat =
      links_of l (match_parsed (parse_compound_sku (Some (seller_sku l))) cat)"
    by (simp only: links_of_match_parsed reference_links_def)
  then show ?thesis by (simp only: links_of_Nil_iff match_parsed_Nil_iff)
qed

lemma reference_links_origin:
  assumes "k \<in> set (reference_links l cat)"
  shows "bom_sku k = seller_sku l \<and> component_sku k \<noteq> [] \<and>
         (\<exists>p. (p, qty_required k) \<in> set (parse_compound_sku (Some (seller_sku l))) \<and>
              match_component_to_import p cat = Some (component_sku k))"
proof -
  let ?f = "\<lambda>(p, q).
         case match_component_to_import p cat of
           None \<Rightarrow> []
         | Some s \<Rightarrow>
             if s = [] then []
             else [\<lparr>bom_sku = seller_sku l, component_sku = s, qty_required = q\<rparr>]"
  from assms have "k \<in> (\<Union>r\<in>set (parse_compound_sku (Some (seller_sku l))). set (?f r))"
    unfolding reference_links_def by (simp only: set_concat set_map image_image)
  then obtain r where r: "r \<in> set (parse_compound_sku (Some (seller_sku l)))"
    and k: "k \<in> set (?f r)"
    by (rule UN_E)
  obtain p q where pq: "r = (p, q)" by (cases r)
  show ?thesis
  proof (cases "match_component_to_import p cat")
    case None
    with k pq show ?thesis by simp
  next
    case (Some s)
    with k pq have "s \<noteq> []"
      and "k = \<lparr>bom_sku = seller_sku l, component_sku = s, qty_required = q\<rparr>"
      by (simp_all split: if_splits)
    with r pq Some show ?thesis by auto
  qed
qed

lemma fallback_links_origin:
  assumes "k \<in> set (fallback_links l cat)"
  shows "bom_sku k = seller_sku l \<and> qty_required k = 1 \<and>
         (\<exists>c\<in>set cat. title_overlap (item_name l) c \<and> internal_sku c = component_sku k)"
proof (cases "find (title_overlap (item_name l)) cat")
  case None
  with assms show ?thesis by (simp add: fallback_links_def)
next
  case (Some c)
  then have "c \<in> set cat" "title_overlap (item_name l) c"
    by (auto simp: find_Some_iff)
  with assms Some show ?thesis by (auto simp: fallback_links_def)
qed

lemma reference_links_member:
  assumes "(p, q) \<in> set (parse_compound_sku (Some (seller_sku l)))"
    and "match_component_to_import p cat = Some s" and "s \<noteq> []"
  shows "\<lparr>bom_sku = seller_sku l, component_sku = s, qty_required = q\<rparr>
           \<in> set (reference_links l cat)"
proof -
  let ?f = "\<lambda>(p, q).
         case match_component_to_import p cat of
           None \<Rightarrow> []
         | Some s \<Rightarrow>
             if s = [] then []
             else [\<lparr>bom_sku = seller_sku l, component_sku = s, qty_required = q\<rparr>]"
  from assms(2,3)
  have "\<lparr>bom_sku = seller_sku l, component_sku = s, qty_required = q\<rparr> \<in> set (?f (p, q))"
    by simp
  with assms(1)
  have "\<exists>r\<in>set (parse_compound_sku (Some (seller_sku l))).
          \<lparr>bom_sku = seller_sku l, component_sku = s, qty_required = q\<rparr> \<in> set (?f r)"
    by (rule rev_bexI)
  then have "\<lparr>bom_sku = seller_sku l, component_sku = s, qty_required = q\<rparr>
      \<in> (\<Union>r\<in>set (parse_compound_sku (Some (seller_sku l))). set (?f r))"
    by (simp only: UN_iff)
  then show ?thesis unfolding reference_links_def by (simp only: set_concat set_map image_image)
qed

lemma listing_links_origin:
  assumes "k \<in> set (listing_links l cat)"
  shows "bom_sku k = seller_sku l \<and> component_sku k \<in> internal_sku ` set cat \<and>
         ((\<exists>p. (p, qty_required k) \<in> set (parse_compound_sku (Some (seller_sku l))) \<and>
               match_component_to_import p cat = Some (component_sku k) \<and>
               component_sku k \<noteq> []) \<or>
          ((\<forall>r\<in>set (parse_compound_sku (Some (seller_sku l))). \<not> reference_matched cat r) \<and>
           qty_required k = 1 \<and>
           (\<exists>c\<in>set cat. title_overlap (item_name l) c \<and> internal_sku c = component_sku k)))"
proof (cases "reference_links l cat = []")
  case True
  with assms have "k \<in> set (fallback_links l cat)" by (simp add: listing_links_def)
  from fallback_links_origin [OF this] obtain c where
    c: "bom_sku k = seller_sku l" "qty_required k = 1" "c \<in> set cat"
      "title_overlap (item_name l) c" "internal_sku c = component_sku k" by blast
  from c(3) have "internal_sku c \<in> internal_sku ` set cat" by (rule imageI)
  with c(5) have i: "component_sku k \<in> internal_sku ` set cat" by simp
  from True have "\<forall>r\<in>set (parse_compound_sku (Some (seller_sku l))). \<not> reference_matched cat r"
    by (simp only: reference_links_Nil_iff)
  with c i show ?thesis by blast
next
  case False
  with assms have "k \<in> set (reference_links l cat)" by (simp add: listing_links_def)
  from reference_links_origin [OF this] obtain p where
    p: "bom_sku k = seller_sku l" "component_sku k \<noteq> []"
      "(p, qty_required k) \<in> set (parse_compound_sku (Some (seller_sku l)))"
      "match_component_to_import p cat = Some (component_sku k)" by blast
  from match_in_catalog [OF p(4)] p show ?thesis by blast
qed

lemma listing_links_member:
  assumes "(p, q) \<in> set (parse_compound_sku (Some (seller_sku l)))"
    and "match_component_to_import p cat = Some s" and "s \<noteq> []"
  shows "\<lparr>bom_sku = seller_sku l, component_sku = s, qty_required = q\<rparr>
           \<in> set (listing_links l cat)"
proof -
  from reference_links_member [OF assms]
  have m: "\<lparr>bom_sku = seller_sku l, component_sku = s, qty_required = q\<rparr>
           \<in> set (reference_links l cat)" .
  then have "reference_links l cat \<noteq> []" by auto
  with m show ?thesis by (simp add: listing_links_def)
qed

lemma links_resolve:
  "bom_components_list (create_boms_and_listings ls cat) =
     concat (map (\<lambda>l. listing_links l cat) ls)"
  by (simp add: create_resolve resolve_def)

lemma unmatched_resolve:
  "unmatched (create_boms_and_listings ls cat) =
     map unmatched_record_of (filter (\<lambda>l. zero_matches l cat) ls)"
  by (simp add: create_resolve resolve_def)

lemma zero_matches_cong:
  "seller_sku l' = seller_sku l \<Longrightarrow> item_name l' = item_name l \<Longrightarrow>
     zero_matches l' cat = zero_matches l cat"
  by (simp add: zero_matches_def)

lemma unmatched_record_of_eq:
  "unmatched_record_of l' = unmatched_record_of l \<Longrightarrow>
     seller_sku l' = seller_sku l \<and> item_name l' = item_name l"
  by (simp add: unmatched_record_of_def)

lemma unmatched_member:
  assumes "l \<in> set ls"
  shows "(unmatched_record_of l \<in> set (unmatched (create_boms_and_listings ls cat))) =
         zero_matches l cat"
proof
  assume "unmatched_record_of l \<in> set (unmatched (create_boms_and_listings ls cat))"
  then have "unmatched_record_of l \<in>
      unmatched_record_of ` set (filter (\<lambda>l. zero_matches l cat) ls)"
    by (simp only: unmatched_resolve set_map)
  then obtain l' where m: "l' \<in> set (filter (\<lambda>l. zero_matches l cat) ls)"
    and e: "unmatched_record_of l = unmatched_record_of l'"
    by (rule imageE)
  from m have "zero_matches l' cat" by simp
  with e have l': "zero_matches l' cat" "unmatched_record_of l' = unmatched_record_of l"
    by simp_all
  from unmatched_record_of_eq [OF l'(2)]
  have "zero_matches l' cat = zero_matches l cat"
    by (intro zero_matches_cong) simp_all
  with l'(1) show "zero_matches l cat" by simp
next
  assume "zero_matches l cat"
  with assms have "l \<in> set (filter (\<lambda>l. zero_matches l cat) ls)" by simp
  then have "unmatched_record_of l \<in>
      unmatched_record_of ` set (filter (\<lambda>l. zero_matches l cat) ls)"
    by (rule imageI)
  then show "unmatched_record_of l \<in> set (unmatched (create_boms_and_listings ls cat))"
    by (simp only: unmatched_resolve set_map)
qed

lemma distinct_seller_sku:
  "distinct (map seller_sku ls) \<Longrightarrow> l \<in> set ls \<Longrightarrow> l' \<in> set ls \<Longrightarrow>
     seller_sku l' = seller_sku l \<Longrightarrow> l' = l"
proof -
  assume "distinct (map seller_sku ls)"
  then have "inj_on seller_sku (set ls)" by (simp add: distinct_map)
  moreover assume "l \<in> set ls" "l' \<in> set ls" "seller_sku l' = seller_sku l"
  ultimately show "l' = l" by (blast dest: inj_onD)
qed

text \<open>
  Claim C2. \<open>create_boms_and_listings\<close> returns the four collections of \<open>resolve\<close>:
  one BOM row and one listing memory entry per listing, in order, with the fields of the
  listing; the links of the listings one after the other; and one unmatched record, with
  the SKU, the title and the ASIN of the listing, for each listing with zero matches, that
  is, none of whose references is matched and for which the fallback accepts no component.
  A listing has no link exactly when it has zero matches. Every link of the result belongs
  to a listing and carries its SKU and the SKU of a component of the catalog; it is the
  match of a reference of that listing, with the quantity of the reference, or, when no
  reference of the listing is matched, the component accepted by the fallback, with
  quantity 1. Every matched reference of a listing has its link in the result. The
  unmatched record of a listing is in the result exactly when the listing has zero
  matches, every unmatched record is the one of such a listing, and a listing that does
  not have zero matches has a link in the result. When no two listings have the same SKU,
  a listing with zero matches has no link in the result under its SKU.
\<close>

theorem resolve_invariants:
  "create_boms_and_listings ls cat = resolve ls cat \<and>
   length (boms (create_boms_and_listings ls cat)) = length ls \<and>
   length (listing_memory (create_boms_and_listings ls cat)) = length ls \<and>
   (listing_links l cat = []) = zero_matches l cat \<and>
   (\<forall>k\<in>set (bom_components_list (create_boms_and_listings ls cat)).
      \<exists>l\<in>set ls. k \<in> set (listing_links l cat) \<and> bom_sku k = seller_sku l \<and>
        component_sku k \<in> internal_sku ` set cat \<and>
        ((\<exists>p. (p, qty_required k) \<in> set (parse_compound_sku (Some (seller_sku l))) \<and>
              match_component_to_import p cat = Some (component_sku k) \<and>
              component_sku k \<noteq> []) \<or>
         ((\<forall>r\<in>set (parse_compound_sku (Some (seller_sku l))). \<not> reference_matched cat r) \<and>
          qty_required k = 1 \<and>
          (\<exists>c\<in>set cat. title_overlap (item_name l) c \<and> internal_sku c = component_sku k)))) \<and>
   (\<forall>l\<in>set ls. \<forall>(p, q)\<in>set (parse_compound_sku (Some (seller_sku l))). \<forall>s.
      match_component_to_import p cat = Some s \<and> s \<noteq> [] \<longrightarrow>
      \<lparr>bom_sku = seller_sku l, component_sku = s, qty_required = q\<rparr>
        \<in> set (bom_components_list (create_boms_and_listings ls cat))) \<and>
   (\<forall>u\<in>set (unmatched (create_boms_and_listings ls cat)).
      \<exists>l\<in>set ls. zero_matches l cat \<and>
        u = \<lparr>u_seller_sku = seller_sku l, u_item_name = item_name l, u_asin = asin l\<rparr>) \<and>
   (\<forall>l\<in>set ls.
      (\<lparr>u_seller_sku = seller_sku l, u_item_name = item_name l, u_asin = asin l\<rparr>
         \<in> set (unmatched (create_boms_and_listings ls cat))) = zero_matches l cat) \<and>
   (\<forall>l\<in>set ls. \<not> zero_matches l cat \<longrightarrow>
      (\<exists>k\<in>set (bom_components_list (create_boms_and_listings ls cat)).
         k \<in> set (listing_links l cat) \<and> bom_sku k = seller_sku l)) \<and>
   (distinct (map seller_sku ls) \<longrightarrow>
      (\<forall>l\<in>set ls. zero_matches l cat \<longrightarrow>
         \<not> (\<exists>k\<in>set (bom_components_list (create_boms_and_listings ls cat)).
              bom_sku k = seller_sku l)))"
proof (intro conjI ballI impI)
  show "create_boms_and_listings ls cat = resolve ls cat" by (rule create_resolve)
  show "length (boms (create_boms_and_listings ls cat)) = length ls"
    by (simp add: create_resolve resolve_def)
  show "length (listing_memory (create_boms_and_listings ls cat)) = length ls"
    by (simp add: create_resolve resolve_def)
  show "(listing_links l cat = []) = zero_matches l cat" by (rule listing_links_Nil_iff)
next
  fix k assume "k \<in> set (bom_components_list (create_boms_and_listings ls cat))"
  then obtain l where l: "l \<in> set ls" "k \<in> set (listing_links l cat)"
    by (auto simp: links_resolve)
  from listing_links_origin [OF l(2)] l
  show "\<exists>l\<in>set ls. k \<in> set (listing_links l cat) \<and> bom_sku k = seller_sku l \<and>
        component_sku k \<in> internal_sku ` set cat \<and>
        ((\<exists>p. (p, qty_required k) \<in> set (parse_compound_sku (Some (seller_sku l))) \<and>
              match_component_to_import p cat = Some (component_sku k) \<and>
              component_sku k \<noteq> []) \<or>
         ((\<forall>r\<in>set (parse_compound_sku (Some (seller_sku l))). \<not> reference_matched cat r) \<and>
          qty_required k = 1 \<and>
          (\<exists>c\<in>set cat. title_overlap (item_name l) c \<and> internal_sku c = component_sku k)))"
    by blast
next
  fix l r assume l: "l \<in> set ls" and r: "r \<in> set (parse_compound_sku (Some (seller_sku l)))"
  show "case r of (p, q) \<Rightarrow> \<forall>s. match_component_to_import p cat = Some s \<and> s \<noteq> [] \<longrightarrow>
      \<lparr>bom_sku = seller_sku l, component_sku = s, qty_required = q\<rparr>
        \<in> set (bom_components_list (create_boms_and_listings ls cat))"
  proof (cases r)
    case (Pair p q)
    have "\<lparr>bom_sku = seller_sku l, component_sku = s, qty_required = q\<rparr>
        \<in> set (bom_components_list (create_boms_and_listings ls cat))"
      if "match_component_to_import p cat = Some s" "s \<noteq> []" for s
    proof -
      from r Pair have "(p, q) \<in> set (parse_compound_sku (Some (seller_sku l)))" by simp
      from listing_links_member [OF this that] l show ?thesis
        by (auto simp: links_resolve)
    qed
    with Pair show ?thesis by simp
  qed
next
  fix u assume "u \<in> set (unmatched (create_boms_and_listings ls cat))"
  then show "\<exists>l\<in>set ls. zero_matches l cat \<and>
        u = \<lparr>u_seller_sku = seller_sku l, u_item_name = item_name l, u_asin = asin l\<rparr>"
    by (auto simp: unmatched_resolve unmatched_record_of_def)
next
  fix l assume "l \<in> set ls"
  from unmatched_member [OF this, of cat]
  show "(\<lparr>u_seller_sku = seller_sku l, u_item_name = item_name l, u_asin = asin l\<rparr>
         \<in> set (unmatched (create_boms_and_listings ls cat))) = zero_matches l cat"
    by (simp only: unmatched_record_of_def)
next
  fix l assume l: "l \<in> set ls" and "\<not> zero_matches l cat"
  then have "listing_links l cat \<noteq> []" by (simp add: listing_links_Nil_iff)
  then obtain k where k: "k \<in> set (listing_links l cat)" by (cases "listing_links l cat") auto
  from listing_links_origin [OF k] have "bom_sku k = seller_sku l" by simp
  with k l show "\<exists>k\<in>set (bom_components_list (create_boms_and_listings ls cat)).
         k \<in> set (listing_links l cat) \<and> bom_sku k = seller_sku l"
    by (auto simp: links_resolve)
next
  fix l assume d: "distinct (map seller_sku ls)" and l: "l \<in> set ls" and z: "zero_matches l cat"
  show "\<not> (\<exists>k\<in>set (bom_components_list (create_boms_and_listings ls cat)).
              bom_sku k = seller_sku l)"
  proof
    assume "\<exists>k\<in>set (bom_components_list (create_boms_and_listings ls cat)).
              bom_sku k = seller_sku l"
    then obtain k l' where k: "bom_sku k = seller_sku l" "l' \<in> set ls"
        "k \<in> set (listing_links l' cat)"
      by (auto simp: links_resolve)
    from listing_links_origin [OF k(3)] k(1) have "seller_sku l' = seller_sku l" by simp
    with d l k(2) have "l' = l" by (rule distinct_seller_sku)
    with k(3) z show False by (simp add: listing_links_Nil_iff [symmetric])
  qed
qed

theorem resolve_invariants_witness:
  "\<lparr>bom_sku = seller_sku bundle_listing, component_sku = ''BL1850'', qty_required = 2\<rparr>
     \<in> set (bom_components_list
         (create_boms_and_listings [bundle_listing, dup_listing] bundle_catalog)) \<and>
   \<lparr>u_seller_sku = seller_sku bundle_listing, u_item_name = item_name bundle_listing,
     u_asin = asin bundle_listing\<rparr>
     \<notin> set (unmatched (create_boms_and_listings [bundle_listing, dup_listing] bundle_catalog)) \<and>
   \<lparr>u_seller_sku = seller_sku dup_listing, u_item_name = item_name dup_listing,
     u_asin = asin dup_listing\<rparr>
     \<in> set (unmatched (create_boms_and_listings [bundle_listing, dup_listing] bundle_catalog)) \<and>
   \<not> (\<exists>k\<in>set (bom_components_list
         (create_boms_and_listings [bundle_listing, dup_listing] bundle_catalog)).
        bom_sku k = seller_sku dup_listing) \<and>
   length (boms (create_boms_and_listings [bundle_listing, dup_listing] bundle_catalog)) = 2"
proof -
  let ?ls = "[bundle_listing, dup_listing]"
  let ?out = "create_boms_and_listings ?ls bundle_catalog"
  have p1: "parse_compound_sku (Some (seller_sku bundle_listing)) =
      [(''MAKDJR186'', 1), (''BL1850'', 2)]"
    unfolding bundle_listing_def by code_simp
  have p2: "parse_compound_sku (Some (seller_sku dup_listing)) = [(''ZZZ999'', 1)]"
    unfolding dup_listing_def by code_simp
  have m1: "match_component_to_import ''MAKDJR186'' bundle_catalog = Some ''MAKDJR186''"
    unfolding bundle_catalog_def by code_simp
  have m2: "match_component_to_import ''BL1850'' bundle_catalog = Some ''BL1850''"
    unfolding bundle_catalog_def by code_simp
  have m3: "match_component_to_import ''ZZZ999'' bundle_catalog = None"
    unfolding bundle_catalog_def by code_simp
  have t: "find (title_overlap (item_name dup_listing)) bundle_catalog = None"
    unfolding dup_listing_def bundle_catalog_def by code_simp
  have zb: "\<not> zero_matches bundle_listing bundle_catalog"
    by (simp add: zero_matches_def p1 reference_matched_def m1)
  from t have "\<forall>c\<in>set bundle_catalog. \<not> title_overlap (item_name dup_listing) c"
    by (simp only: find_None_iff) blast
  then have zd: "zero_matches dup_listing bundle_catalog"
    by (simp add: zero_matches_def p2 reference_matched_def m3)
  have d: "distinct (map seller_sku ?ls)"
    by (simp add: bundle_listing_def dup_listing_def)
  have b: "bundle_listing \<in> set ?ls" and dl: "dup_listing \<in> set ?ls" by simp_all
  have r: "(''BL1850'', 2) \<in> set (parse_compound_sku (Some (seller_sku bundle_listing)))"
    by (simp add: p1)
  note th = resolve_invariants [of ?ls bundle_catalog bundle_listing]
  from th have "length (boms ?out) = length ?ls" by (elim conjE)
  then have c2: "length (boms ?out) = 2" by simp
  from th have "\<forall>l\<in>set ?ls. \<forall>(p, q)\<in>set (parse_compound_sku (Some (seller_sku l))). \<forall>s.
      match_component_to_import p bundle_catalog = Some s \<and> s \<noteq> [] \<longrightarrow>
      \<lparr>bom_sku = seller_sku l, component_sku = s, qty_required = q\<rparr>
        \<in> set (bom_components_list ?out)" by (elim conjE)
  with b r m2
  have c6: "\<lparr>bom_sku = seller_sku bundle_listing, component_sku = ''BL1850'', qty_required = 2\<rparr>
     \<in> set (bom_components_list ?out)" by fastforce
  from th have c8: "\<forall>l\<in>set ?ls.
      (\<lparr>u_seller_sku = seller_sku l, u_item_name = item_name l, u_asin = asin l\<rparr>
         \<in> set (unmatched ?out)) = zero_matches l bundle_catalog" by (elim conjE)
  from c8 b zb
  have u1: "\<lparr>u_seller_sku = seller_sku bundle_listing, u_item_name = item_name bundle_listing,
     u_asin = asin bundle_listing\<rparr> \<notin> set (unmatched ?out)" by blast
  from c8 dl zd
  have u2: "\<lparr>u_seller_sku = seller_sku dup_listing, u_item_name = item_name dup_listing,
     u_asin = asin dup_listing\<rparr> \<in> set (unmatched ?out)" by blast
  from th have "distinct (map seller_sku ?ls) \<longrightarrow>
      (\<forall>l\<in>set ?ls. zero_matches l bundle_catalog \<longrightarrow>
         \<not> (\<exists>k\<in>set (bom_components_list ?out). bom_sku k = seller_sku l))" by (elim conjE)
  with d dl zd
  have c10: "\<not> (\<exists>k\<in>set (bom_components_list ?out). bom_sku k = seller_sku dup_listing)"
    by blast
  from c6 u1 u2 c10 c2 show ?thesis by (intro conjI)
qed

subsection \<open>The fallback\<close>

lemma load_listing_row_item_name: "load_listing_row sha256_hex row = Some l \<Longrightarrow> item_name l \<noteq> []"
  by (auto simp: load_listing_row_def Let_def split: if_splits)

lemma title_overlap_accept: "title_overlap title c = title_accept title c"
proof (cases "description c = []")
  case True
  then have "\<not> length (upper (description c)) > 10" by (simp add: upper_def)
  with True show ?thesis by (simp add: title_overlap_def title_accept_def)
next
  case False
  then show ?thesis by (auto simp: title_overlap_def title_accept_def Let_def)
qed

lemma find_title_accept: "find (title_overlap title) cat = find (title_accept title) cat"
  by (rule find_cong) (simp_all add: title_overlap_accept)

lemma match_parsed_no_match:
  "\<forall>(p, q)\<in>set parsed. match_component_to_import p cat = None \<or>
       match_component_to_import p cat = Some [] \<Longrightarrow>
     match_parsed parsed cat = []"
  by (induction parsed cat rule: match_parsed.induct) auto

lemma find_title_accept_empty: "find (title_accept []) cat = None"
  by (simp add: find_None_iff title_accept_def)

text \<open>
  Claim C5, as the code has it. For a listing none of whose parsed references is matched
  (an empty parse included), the matched components are found by one scan of the catalog:
  the first component, in catalog order, whose upper-cased description is longer than 10
  characters and contains the upper-cased title or is contained in it, provided that the
  title is not empty, with quantity 1, and nothing else; if there is no such component,
  and whenever the title is empty, the listing has no link. The length is the one of the
  upper-cased description. A listing that \<open>load_listing_row\<close> produces has a title
  (\<open>load_listing_row_item_name\<close>).
\<close>

theorem fallback_scan:
  assumes "\<forall>(p, q)\<in>set (parse_compound_sku (Some (seller_sku l))).
             match_component_to_import p cat = None \<or>
             match_component_to_import p cat = Some []"
  shows "matched_components l cat =
           (case find (title_accept (item_name l)) cat of
              None \<Rightarrow> []
            | Some c \<Rightarrow> [(internal_sku c, 1)]) \<and>
         bom_components_list (create_boms_and_listings [l] cat) =
           (case find (title_accept (item_name l)) cat of
              None \<Rightarrow> []
            | Some c \<Rightarrow>
                [\<lparr>bom_sku = seller_sku l, component_sku = internal_sku c, qty_required = 1\<rparr>]) \<and>
         (item_name l = [] \<longrightarrow>
            bom_components_list (create_boms_and_listings [l] cat) = [])"
proof -
  from match_parsed_no_match [OF assms]
  have "matched_components l cat = title_match (item_name l) cat"
    by (simp add: matched_components_def)
  then have m: "matched_components l cat =
           (case find (title_accept (item_name l)) cat of
              None \<Rightarrow> []
            | Some c \<Rightarrow> [(internal_sku c, 1)])"
    by (simp add: title_match_find find_title_accept)
  have b: "bom_components_list (create_boms_and_listings [l] cat) =
           (case find (title_accept (item_name l)) cat of
              None \<Rightarrow> []
            | Some c \<Rightarrow>
                [\<lparr>bom_sku = seller_sku l, component_sku = internal_sku c, qty_required = 1\<rparr>])"
    by (simp add: create_boms_and_listings_eq m links_of_def split: option.split)
  have "bom_components_list (create_boms_and_listings [l] cat) = []" if "item_name l = []"
    using that by (simp only: b find_title_accept_empty option.case)
  with m b show ?thesis by blast
qed

theorem fallback_scan_witness:
  "matched_components dup_listing dup_catalog = [(''ABC'', 1)] \<and>
   find (title_accept (item_name dup_listing)) dup_catalog = Some (dup_catalog ! 1) \<and>
   bom_components_list (create_boms_and_listings [dup_listing] dup_catalog) =
     [\<lparr>bom_sku = seller_sku dup_listing, component_sku = ''ABC'', qty_required = 1\<rparr>] \<and>
   bom_components_list (create_boms_and_listings [dup_listing] bundle_catalog) = [] \<and>
   bom_components_list (create_boms_and_listings [untitled_listing] dup_catalog) = []"
proof -
  have p: "parse_compound_sku (Some (seller_sku dup_listing)) = [(''ZZZ999'', 1)]"
    unfolding dup_listing_def by code_simp
  have p': "parse_compound_sku (Some (seller_sku untitled_listing)) = [(''ZZZ999'', 1)]"
    unfolding untitled_listing_def by code_simp
  have n: "item_name untitled_listing = []"
    unfolding untitled_listing_def by simp
  have m1: "match_component_to_import ''ZZZ999'' dup_catalog = None"
    unfolding dup_catalog_def by code_simp
  have m2: "match_component_to_import ''ZZZ999'' bundle_catalog = None"
    unfolding bundle_catalog_def by code_simp
  have f1: "find (title_accept (item_name dup_listing)) dup_catalog = Some (dup_catalog ! 1)"
    unfolding dup_listing_def dup_catalog_def title_accept_def by code_simp
  have f2: "find (title_accept (item_name dup_listing)) bundle_catalog = None"
    unfolding dup_listing_def bundle_catalog_def title_accept_def by code_simp
  have i: "internal_sku (dup_catalog ! 1) = ''ABC''"
    unfolding dup_catalog_def by simp
  from p m1 have h1: "\<forall>(p, q)\<in>set (parse_compound_sku (Some (seller_sku dup_listing))).
             match_component_to_import p dup_catalog = None \<or>
             match_component_to_import p dup_catalog = Some []" by simp
  from p m2 have h2: "\<forall>(p, q)\<in>set (parse_compound_sku (Some (seller_sku dup_listing))).
             match_component_to_import p bundle_catalog = None \<or>
             match_component_to_import p bundle_catalog = Some []" by simp
  from p' m1 have h3: "\<forall>(p, q)\<in>set (parse_compound_sku (Some (seller_sku untitled_listing))).
             match_component_to_import p dup_catalog = None \<or>
             match_component_to_import p dup_catalog = Some []" by simp
  note t1 = fallback_scan [OF h1]
  note t2 = fallback_scan [OF h2]
  note t3 = fallback_scan [OF h3]
  from t3 n
  have d: "bom_components_list (create_boms_and_listings [untitled_listing] dup_catalog) = []"
    by blast
  from t1 have "matched_components dup_listing dup_catalog =
           (case find (title_accept (item_name dup_listing)) dup_catalog of
              None \<Rightarrow> []
            | Some c \<Rightarrow> [(internal_sku c, 1)])" by (rule conjunct1)
  then have a: "matched_components dup_listing dup_catalog = [(''ABC'', 1)]"
    by (simp only: f1 option.case i)
  from t1 have "bom_components_list (create_boms_and_listings [dup_listing] dup_catalog) =
           (case find (title_accept (item_name dup_listing)) dup_catalog of
              None \<Rightarrow> []
            | Some c \<Rightarrow>
                [\<lparr>bom_sku = seller_sku dup_listing, component_sku = internal_sku c,
                  qty_required = 1\<rparr>])" by (elim conjE)
  then have b: "bom_components_list (create_boms_and_listings [dup_listing] dup_catalog) =
     [\<lparr>bom_sku = seller_sku dup_listing, component_sku = ''ABC'', qty_required = 1\<rparr>]"
    by (simp only: f1 option.case i)
  from t2 have "bom_components_list (create_boms_and_listings [dup_listing] bundle_catalog) =
           (case find (title_accept (item_name dup_listing)) bundle_catalog of
              None \<Rightarrow> []
            | Some c \<Rightarrow>
                [\<lparr>bom_sku = seller_sku dup_listing, component_sku = internal_sku c,
                  qty_required = 1\<rparr>])" by (elim conjE)
  then have c: "bom_components_list (create_boms_and_listings [dup_listing] bundle_catalog) = []"
    by (simp only: f2 option.case)
  from a f1 b c d show ?thesis by (intro conjI)
qed

text \<open>
  A listing without a title: its only reference is not matched, the first component of the
  catalog has a description of 17 characters, and the upper-cased description contains the
  upper-cased title, which is empty. The fallback accepts nothing, because it tests that
  the title is not empty: the listing has no link and is recorded as unmatched.
\<close>

theorem fallback_empty_title:
  "item_name untitled_listing = [] \<and>
   parse_compound_sku (Some (seller_sku untitled_listing)) = [(''ZZZ999'', 1)] \<and>
   match_component_to_import ''ZZZ999'' bundle_catalog = None \<and>
   length (description (bundle_catalog ! 0)) = 17 \<and>
   py_in (upper (item_name untitled_listing)) (upper (description (bundle_catalog ! 0))) \<and>
   matched_components untitled_listing bundle_catalog = [] \<and>
   bom_components_list (create_boms_and_listings [untitled_listing] bundle_catalog) = [] \<and>
   unmatched (create_boms_and_listings [untitled_listing] bundle_catalog) =
     [\<lparr>u_seller_sku = ''ZZZ999'', u_item_name = [], u_asin = None\<rparr>]"
proof -
  have a: "matched_components untitled_listing bundle_catalog = []"
    unfolding untitled_listing_def bundle_catalog_def by code_simp
  have p: "parse_compound_sku (Some (seller_sku untitled_listing)) = [(''ZZZ999'', 1)]"
    unfolding untitled_listing_def by code_simp
  have m: "match_component_to_import ''ZZZ999'' bundle_catalog = None"
    unfolding bundle_catalog_def by code_simp
  have d: "length (description (bundle_catalog ! 0)) = 17"
    unfolding bundle_catalog_def by simp
  have i: "py_in (upper (item_name untitled_listing)) (upper (description (bundle_catalog ! 0)))"
    unfolding untitled_listing_def bundle_catalog_def by code_simp
  have n: "item_name untitled_listing = []"
    unfolding untitled_listing_def by simp
  have o: "bom_components_list (create_boms_and_listings [untitled_listing] bundle_catalog) = [] \<and>
     unmatched (create_boms_and_listings [untitled_listing] bundle_catalog) =
       [\<lparr>u_seller_sku = ''ZZZ999'', u_item_name = [], u_asin = None\<rparr>]"
    by (simp add: create_boms_and_listings_eq a links_of_def unmatched_of_def)
       (simp add: untitled_listing_def)
  from n p m d i a o show ?thesis by (intro conjI) simp_all
qed

subsection \<open>Deduplication and matching\<close>

lemma find_unique_components:
  "\<forall>u\<in>seen. \<not> Q u \<Longrightarrow>
     find (\<lambda>c. Q (upper (internal_sku c))) (unique_components seen cat) =
     find (\<lambda>c. Q (upper (internal_sku c))) cat"
proof (induction cat arbitrary: seen)
  case Nil
  then show ?case by simp
next
  case (Cons c cs)
  show ?case
  proof (cases "upper (internal_sku c) \<in> seen")
    case True
    with Cons.prems have "\<not> Q (upper (internal_sku c))" by blast
    with True Cons.IH [OF Cons.prems] show ?thesis by (simp add: Let_def)
  next
    case False
    show ?thesis
    proof (cases "Q (upper (internal_sku c))")
      case True
      with False show ?thesis by (simp add: Let_def)
    next
      case nq: False
      with Cons.prems have "\<forall>u\<in>insert (upper (internal_sku c)) seen. \<not> Q u" by blast
      from Cons.IH [OF this] False nq show ?thesis by (simp add: Let_def)
    qed
  qed
qed

lemma exact_tier_unique: "exact_tier pat (unique_components {} cat) = exact_tier pat cat"
  unfolding exact_tier_def first_sku_def
  using find_unique_components [of "{}" "\<lambda>u. u = pat" cat] by simp

lemma containment_tier_unique:
  "containment_tier pat (unique_components {} cat) = containment_tier pat cat"
  unfolding containment_tier_def first_sku_def
  using find_unique_components [of "{}" "\<lambda>u. py_in pat u \<or> py_in u pat" cat] by simp

lemma tiers_unique:
  "t \<in> set (tiers pat) \<Longrightarrow> t (unique_components {} cat) = t cat"
  unfolding tiers_def add_prefix_tier_def strip_prefix_tier_def
  by (auto simp: exact_tier_unique containment_tier_unique split: if_splits)

lemma first_hit_cong: "\<forall>t\<in>set ts. t cat' = t cat \<Longrightarrow> first_hit ts cat' = first_hit ts cat"
  by (induction ts) (simp_all split: option.split)

lemma match_component_unique:
  "match_component_to_import p (unique_components {} cat) = match_component_to_import p cat"
  unfolding match_component_tiers matchComponent_def
  by (rule first_hit_cong) (simp add: tiers_unique)

lemma match_parsed_unique:
  "match_parsed parsed (unique_components {} cat) = match_parsed parsed cat"
  by (induction parsed) (auto simp: match_component_unique split: option.splits)

lemma unique_components_distinct:
  "distinct (map (\<lambda>c. upper (internal_sku c)) cat) \<Longrightarrow>
   \<forall>c\<in>set cat. upper (internal_sku c) \<notin> seen \<Longrightarrow> unique_components seen cat = cat"
proof (induction cat arbitrary: seen)
  case Nil
  then show ?case by simp
next
  case (Cons c cs)
  from Cons.prems have d: "distinct (map (\<lambda>c. upper (internal_sku c)) cs)"
    and n: "upper (internal_sku c) \<notin> seen"
    and i: "upper (internal_sku c) \<notin> (\<lambda>c. upper (internal_sku c)) ` set cs"
    and s: "\<forall>x\<in>set cs. upper (internal_sku x) \<notin> seen"
    by simp_all
  have f: "\<forall>x\<in>set cs. upper (internal_sku x) \<noteq> upper (internal_sku c)"
  proof (intro ballI notI)
    fix x assume x: "x \<in> set cs" and e: "upper (internal_sku x) = upper (internal_sku c)"
    from x have "(\<lambda>c. upper (internal_sku c)) x \<in> (\<lambda>c. upper (internal_sku c)) ` set cs"
      by (rule imageI)
    with e i show False by simp
  qed
  from f s have "\<forall>x\<in>set cs. upper (internal_sku x) \<notin> insert (upper (internal_sku c)) seen"
    by simp
  from Cons.IH [OF d this] n show ?case by (simp add: Let_def)
qed

text \<open>
  Claim C1, as the code has it. \<open>create_boms_and_listings\<close> works on the catalog as it
  was loaded; the deduplication of \<open>create_component_sql\<close> is not applied to it. The
  matcher returns the same SKU on the catalog and on the deduplicated catalog, so the two
  results of the resolution agree when every listing has a reference that matches, and when
  the catalog has no duplicate.
\<close>

theorem dedup_matching:
  "match_component_to_import p (unique_components {} cat) = match_component_to_import p cat \<and>
   ((\<forall>l\<in>set ls. match_parsed (parse_compound_sku (Some (seller_sku l))) cat \<noteq> []) \<longrightarrow>
      create_boms_and_listings ls (unique_components {} cat) = create_boms_and_listings ls cat) \<and>
   (distinct (map (\<lambda>c. upper (internal_sku c)) cat) \<longrightarrow>
      create_boms_and_listings ls (unique_components {} cat) = create_boms_and_listings ls cat)"
proof (intro conjI impI)
  show "match_component_to_import p (unique_components {} cat) = match_component_to_import p cat"
    by (rule match_component_unique)
next
  assume a: "\<forall>l\<in>set ls. match_parsed (parse_compound_sku (Some (seller_sku l))) cat \<noteq> []"
  have "matched_components l (unique_components {} cat) = matched_components l cat"
    if "l \<in> set ls" for l
    using that a by (simp add: matched_components_def match_parsed_unique)
  then show "create_boms_and_listings ls (unique_components {} cat) =
             create_boms_and_listings ls cat"
    by (simp add: create_boms_and_listings_eq cong: map_cong)
next
  assume "distinct (map (\<lambda>c. upper (internal_sku c)) cat)"
  then have "unique_components {} cat = cat"
    by (rule unique_components_distinct) simp
  then show "create_boms_and_listings ls (unique_components {} cat) =
             create_boms_and_listings ls cat"
    by simp
qed

theorem dedup_matching_witness:
  "match_parsed (parse_compound_sku (Some (seller_sku bundle_listing)))
     (bundle_catalog @ bundle_catalog) \<noteq> [] \<and>
   unique_components {} (bundle_catalog @ bundle_catalog) = bundle_catalog \<and>
   distinct (map (\<lambda>c. upper (internal_sku c)) bundle_catalog) \<and>
   create_boms_and_listings [bundle_listing] bundle_catalog =
     create_boms_and_listings [bundle_listing] (bundle_catalog @ bundle_catalog)"
proof -
  have m: "match_parsed (parse_compound_sku (Some (seller_sku bundle_listing)))
     (bundle_catalog @ bundle_catalog) = [(''MAKDJR186'', 1), (''BL1850'', 2)]"
    unfolding bundle_listing_def bundle_catalog_def by code_simp
  have u: "unique_components {} (bundle_catalog @ bundle_catalog) = bundle_catalog"
    unfolding bundle_catalog_def by code_simp
  have d: "distinct (map (\<lambda>c. upper (internal_sku c)) bundle_catalog)"
    unfolding bundle_catalog_def by code_simp
  from m have "\<forall>l\<in>set [bundle_listing].
      match_parsed (parse_compound_sku (Some (seller_sku l))) (bundle_catalog @ bundle_catalog) \<noteq> []"
    by simp
  with dedup_matching [of "''X''" "bundle_catalog @ bundle_catalog" "[bundle_listing]"]
  have "create_boms_and_listings [bundle_listing]
          (unique_components {} (bundle_catalog @ bundle_catalog)) =
        create_boms_and_listings [bundle_listing] (bundle_catalog @ bundle_catalog)"
    by blast
  with m u d show ?thesis by simp
qed

text \<open>
  The fallback reads the descriptions, and the description of a duplicate differs from the
  one of the first occurrence: on the full catalog the listing is linked to a component, on
  the deduplicated catalog it is unmatched.
\<close>

theorem dedup_changes_fallback:
  "bom_components_list (create_boms_and_listings [dup_listing] dup_catalog) =
     [\<lparr>bom_sku = ''ZZZ999'', component_sku = ''ABC'', qty_required = 1\<rparr>] \<and>
   unmatched (create_boms_and_listings [dup_listing] dup_catalog) = [] \<and>
   bom_components_list
     (create_boms_and_listings [dup_listing] (unique_components {} dup_catalog)) = [] \<and>
   unmatched (create_boms_and_listings [dup_listing] (unique_components {} dup_catalog)) =
     [\<lparr>u_seller_sku = ''ZZZ999'', u_item_name = ''Makita Drill 18V'',
       u_asin = Some ''B000000001''\<rparr>]"
proof -
  have a: "matched_components dup_listing dup_catalog = [(''ABC'', 1)]"
    unfolding dup_listing_def dup_catalog_def by code_simp
  have b: "matched_components dup_listing (unique_components {} dup_catalog) = []"
    unfolding dup_listing_def dup_catalog_def by code_simp
  show ?thesis
    by (simp add: create_boms_and_listings_eq a b links_of_def unmatched_of_def)
       (simp add: dup_listing_def)
qed

section \<open>The normalizer\<close>

subsection \<open>Characters\<close>

lemma code_char_of: "n < 256 \<Longrightarrow> code (char_of n) = n"
  by (simp add: code_def)

lemma code_less: "code c < 256"
  by (simp add: code_def)

lemma upper_char_idem: "upper_char (upper_char c) = upper_char c"
proof (cases "is_lower c")
  case True
  then have "code c - 32 < 256"
    unfolding is_lower_def by arith
  then have "code (char_of (code c - 32)) = code c - 32"
    by (rule code_char_of)
  with True have "\<not> is_lower (char_of (code c - 32))"
    unfolding is_lower_def by arith
  with True show ?thesis by (simp add: upper_char_def)
next
  case False
  then show ?thesis by (simp add: upper_char_def)
qed

lemma is_space_upper_char: "is_space (upper_char c) = is_space c"
  by (auto simp: upper_char_def is_lower_def is_space_def code_char_of)

lemma lower_char_word: "is_word c \<Longrightarrow> lower_char c = c"
  by (auto simp: is_word_def lower_char_def is_lower_def is_upper_def is_digit_def)

lemma lower_char_blank: "lower_char (CHR '' '') = CHR '' ''"
  by (simp add: lower_char_def is_upper_def code_def)

lemma word_not_space: "is_word c \<Longrightarrow> \<not> is_space c"
  by (auto simp: is_word_def is_lower_def is_digit_def is_space_def)

lemma blank_not_word: "\<not> is_word (CHR '' '')"
  using word_not_space [of "CHR '' ''"] is_space_blank by blast

lemma sub_special_word: "is_word c \<Longrightarrow> sub_special c = c"
  by (auto simp: sub_special_def is_word_def)

lemma sub_special_space: "is_space (sub_special c) = (\<not> is_word c)"
proof (cases "is_word c")
  case True
  with sub_special_word [of c] word_not_space [of c] show ?thesis by simp
next
  case False
  then show ?thesis by (simp add: sub_special_def is_word_def is_space_blank)
qed

subsection \<open>Stripping\<close>

lemma dropWhile_self: "xs = [] \<or> \<not> P (hd xs) \<Longrightarrow> dropWhile P xs = xs"
  by (cases xs) auto

lemma hd_dropWhile_not: "dropWhile P xs \<noteq> [] \<Longrightarrow> \<not> P (hd (dropWhile P xs))"
  by (rule hd_dropWhile)

lemma last_dropWhile: "dropWhile P xs \<noteq> [] \<Longrightarrow> last (dropWhile P xs) = last xs"
proof -
  assume a: "dropWhile P xs \<noteq> []"
  have "xs = takeWhile P xs @ dropWhile P xs" by simp
  then have "last xs = last (takeWhile P xs @ dropWhile P xs)" by simp
  also from a have "\<dots> = last (dropWhile P xs)" by (rule last_appendR)
  finally show ?thesis by simp
qed

lemma strip_fixed:
  "s = [] \<or> (\<not> is_space (hd s) \<and> \<not> is_space (last s)) \<Longrightarrow> strip s = s"
proof (cases "s = []")
  case True
  then show ?thesis by (simp add: strip_def)
next
  case False
  assume "s = [] \<or> (\<not> is_space (hd s) \<and> \<not> is_space (last s))"
  with False have h: "\<not> is_space (hd s)" and l: "\<not> is_space (last s)" by simp_all
  from False h have 1: "dropWhile is_space s = s" by (simp add: dropWhile_self)
  from False l have "\<not> is_space (hd (rev s))" by (simp add: hd_rev)
  then have 2: "dropWhile is_space (rev s) = rev s" by (simp add: dropWhile_self)
  show ?thesis by (simp add: strip_def 1 2)
qed

lemma strip_ends:
  "strip s = [] \<or> (\<not> is_space (hd (strip s)) \<and> \<not> is_space (last (strip s)))"
proof (cases "strip s = []")
  case True
  then show ?thesis by simp
next
  case False
  let ?a = "dropWhile is_space s"
  let ?b = "dropWhile is_space (rev ?a)"
  from False have b: "?b \<noteq> []" by (simp add: strip_def)
  have a: "?a \<noteq> []"
  proof
    assume "?a = []"
    then have "?b = []" by (simp only: rev.simps dropWhile.simps)
    with b show False by simp
  qed
  from b have "\<not> is_space (hd ?b)" by (rule hd_dropWhile_not)
  with b have l: "\<not> is_space (last (strip s))" by (simp add: strip_def last_rev)
  from b have "last ?b = last (rev ?a)" by (rule last_dropWhile)
  with a have "last ?b = hd ?a" by (simp add: last_rev)
  moreover from a have "\<not> is_space (hd ?a)" by (rule hd_dropWhile_not)
  ultimately have "\<not> is_space (last ?b)" by simp
  with b have "\<not> is_space (hd (strip s))" by (simp add: strip_def hd_rev)
  with l show ?thesis by simp
qed

lemma strip_idem: "strip (strip s) = strip s"
  by (rule strip_fixed) (rule strip_ends)

lemma strip_upper: "strip (upper s) = upper (strip s)"
proof -
  have "is_space \<circ> upper_char = is_space"
    by (rule ext) (simp add: is_space_upper_char)
  then show ?thesis
    by (simp add: strip_def upper_def dropWhile_map rev_map)
qed

lemma upper_idem: "upper (upper s) = upper s"
  by (simp add: upper_def upper_char_idem)

lemma normalize_sku_idem:
  "normalize_sku x = Some v \<Longrightarrow> v \<noteq> [] \<Longrightarrow> normalize_sku (Some v) = Some v"
proof -
  assume a: "normalize_sku x = Some v" and n: "v \<noteq> []"
  from a obtain s where v: "v = upper (strip s)"
    by (auto simp: normalize_sku_def split: option.splits if_splits)
  have "upper (strip v) = v"
    unfolding v by (simp add: strip_upper strip_idem upper_idem)
  with n show ?thesis by (simp add: normalize_sku_def)
qed

subsection \<open>Collapsing white space\<close>

lemma strip_rstrip: "strip s = rstrip (dropWhile is_space s)"
  by (simp add: strip_def rstrip_def)

lemma rstrip_Nil_iff: "(rstrip s = []) = (\<forall>c\<in>set s. is_space c)"
  by (simp add: rstrip_def dropWhile_eq_Nil_conv)

lemma rstrip_append:
  "rstrip (w @ x) = (if \<forall>c\<in>set x. is_space c then rstrip w else w @ rstrip x)"
proof (cases "\<forall>c\<in>set x. is_space c")
  case True
  then have "dropWhile is_space (rev x @ rev w) = dropWhile is_space (rev w)"
    by (intro dropWhile_append2) simp
  with True show ?thesis by (simp add: rstrip_def)
next
  case False
  then obtain c where "c \<in> set (rev x)" "\<not> is_space c" by auto
  then have e: "dropWhile is_space (rev x @ rev w) = dropWhile is_space (rev x) @ rev w"
    by (intro dropWhile_append1)
  have "rstrip (w @ x) = rev (dropWhile is_space (rev x @ rev w))"
    by (simp add: rstrip_def)
  also have "\<dots> = w @ rstrip x"
    by (simp only: e rev_append rev_rev_ident rstrip_def)
  finally show ?thesis using False by (simp only: if_False)
qed

lemma rstrip_clean: "w \<noteq> [] \<Longrightarrow> \<not> is_space (last w) \<Longrightarrow> rstrip w = w"
  by (simp add: rstrip_def dropWhile_self hd_rev)

lemma collapse_ws_clean:
  "\<forall>c\<in>set w. \<not> is_space c \<Longrightarrow> collapse_ws (w @ r) = w @ collapse_ws r"
  by (induction w) simp_all

lemma collapse_ws_space:
  "is_space s \<Longrightarrow> collapse_ws (s # r) = CHR '' '' # collapse_ws (dropWhile is_space (s # r))"
  by simp

lemma dropWhile_collapse_ws:
  "dropWhile is_space (collapse_ws u) = collapse_ws (dropWhile is_space u)"
proof (cases u)
  case Nil
  then show ?thesis by simp
next
  case (Cons c cs)
  show ?thesis
  proof (cases "is_space c")
    case False
    with Cons show ?thesis by simp
  next
    case True
    let ?d = "dropWhile is_space cs"
    have d: "dropWhile is_space (collapse_ws ?d) = collapse_ws ?d"
    proof (cases ?d)
      case Nil
      show ?thesis by (simp only: Nil collapse_ws.simps dropWhile.simps)
    next
      case (Cons e es)
      then have "?d \<noteq> []" by (simp only: list.distinct not_False_eq_True)
      then have "\<not> is_space (hd ?d)" by (rule hd_dropWhile_not)
      then have "\<not> is_space e" by (simp only: Cons list.sel not_False_eq_True)
      then have "dropWhile is_space (collapse_ws (e # es)) = collapse_ws (e # es)" by simp
      then show ?thesis by (simp only: Cons)
    qed
    from True have "collapse_ws (c # cs) = CHR '' '' # collapse_ws ?d" by simp
    then have "dropWhile is_space (collapse_ws (c # cs)) = dropWhile is_space (collapse_ws ?d)"
      by (simp add: is_space_blank)
    also note d
    also from True have "collapse_ws ?d = collapse_ws (dropWhile is_space (c # cs))" by simp
    finally show ?thesis by (simp only: Cons)
  qed
qed

subsection \<open>The words of a text\<close>

lemma words_of_Nil: "words_of [] = []"
  by (subst words_of.simps) simp

lemma words_of_skip: "\<not> is_word s \<Longrightarrow> words_of (s # r) = words_of r"
proof -
  assume "\<not> is_word s"
  then have "dropWhile (\<lambda>c. \<not> is_word c) (s # r) = dropWhile (\<lambda>c. \<not> is_word c) r" by simp
  then show ?thesis
    by (simp only: words_of.simps [of "s # r"] words_of.simps [of r])
qed

lemma words_of_word:
  "is_word c \<Longrightarrow>
     words_of (c # cs) = (c # takeWhile is_word cs) # words_of (dropWhile is_word cs)"
  by (subst words_of.simps) simp

lemma clean_run: "is_word c \<Longrightarrow> clean (c # takeWhile is_word cs)"
  by (auto simp: clean_def dest: set_takeWhileD)

lemma words_of_clean: "\<forall>w\<in>set (words_of s). clean w"
proof (induction s rule: words_of.induct)
  case (1 s)
  show ?case
  proof (cases "dropWhile (\<lambda>c. \<not> is_word c) s")
    case Nil
    then have "words_of s = []" by (subst words_of.simps) (simp only: list.case)
    then show ?thesis by simp
  next
    case (Cons c cs)
    then have "dropWhile (\<lambda>c. \<not> is_word c) s \<noteq> []"
      by (simp only: list.distinct not_False_eq_True)
    then have "\<not> \<not> is_word (hd (dropWhile (\<lambda>c. \<not> is_word c) s))"
      by (rule hd_dropWhile_not)
    then have c: "is_word c" by (simp only: Cons list.sel not_not not_False_eq_True)
    from "1.IH" [OF Cons] have ih: "\<forall>w\<in>set (words_of (dropWhile is_word cs)). clean w" .
    have "words_of s = (c # takeWhile is_word cs) # words_of (dropWhile is_word cs)"
      by (subst words_of.simps) (simp only: Cons list.case)
    with ih clean_run [OF c, of cs] show ?thesis by simp
  qed
qed

lemma join_blank_Cons:
  "join_blank (w # ws) = (if ws = [] then w else w @ CHR '' '' # join_blank ws)"
  by (cases ws) simp_all

lemma join_blank_Nil_iff: "\<forall>w\<in>set ws. clean w \<Longrightarrow> (join_blank ws = []) = (ws = [])"
proof (cases ws)
  case Nil
  then show ?thesis by simp
next
  case (Cons w vs)
  assume "\<forall>w\<in>set ws. clean w"
  with Cons have "w \<noteq> []" by (simp add: clean_def)
  then have "join_blank (w # vs) \<noteq> []" by (simp add: join_blank_Cons)
  with Cons show ?thesis by simp
qed

lemma dropWhile_space_sub:
  "dropWhile is_space (map sub_special s) = map sub_special (dropWhile (\<lambda>c. \<not> is_word c) s)"
proof -
  have "is_space \<circ> sub_special = (\<lambda>c. \<not> is_word c)"
    by (rule ext) (simp add: sub_special_space)
  then show ?thesis by (simp add: dropWhile_map)
qed

lemma map_sub_word: "\<forall>c\<in>set w. is_word c \<Longrightarrow> map sub_special w = w"
  by (simp add: sub_special_word map_idI)

lemma clean_last: "clean w \<Longrightarrow> \<not> is_space (last w)"
proof -
  assume c: "clean w"
  then have "last w \<in> set w" by (simp add: clean_def)
  with c have "is_word (last w)" by (simp add: clean_def)
  then show ?thesis by (rule word_not_space)
qed

lemma clean_no_space: "clean w \<Longrightarrow> \<forall>c\<in>set w. \<not> is_space c"
  by (simp add: clean_def word_not_space)

lemma rstrip_word_blank:
  assumes "clean w"
  shows "rstrip (w @ CHR '' '' # y) = (if rstrip y = [] then w else w @ CHR '' '' # rstrip y)"
proof -
  from assms have w: "rstrip w = w"
    by (intro rstrip_clean clean_last) (simp_all add: clean_def)
  have b: "rstrip [CHR '' ''] = []"
    by (simp add: rstrip_def is_space_blank)
  have "rstrip (CHR '' '' # y) = rstrip ([CHR '' ''] @ y)" by simp
  also have "\<dots> = (if \<forall>c\<in>set y. is_space c then [] else [CHR '' ''] @ rstrip y)"
    by (simp only: rstrip_append b)
  finally have 1: "rstrip (CHR '' '' # y) = (if rstrip y = [] then [] else CHR '' '' # rstrip y)"
    by (simp add: rstrip_Nil_iff)
  have "(\<forall>c\<in>set (CHR '' '' # y). is_space c) = (rstrip y = [])"
    by (simp add: rstrip_Nil_iff is_space_blank)
  then have "rstrip (w @ CHR '' '' # y) =
      (if rstrip y = [] then rstrip w else w @ rstrip (CHR '' '' # y))"
    by (simp only: rstrip_append)
  with w 1 show ?thesis by simp
qed

lemma collapse_ws_separator:
  assumes "r \<noteq> []" and "\<not> is_word (hd r)"
  shows "collapse_ws (map sub_special r) =
         CHR '' '' # collapse_ws (map sub_special (dropWhile (\<lambda>c. \<not> is_word c) r))"
proof -
  from assms obtain s r' where r: "r = s # r'" and s: "\<not> is_word s"
    by (cases r) simp_all
  from s have sp: "is_space (sub_special s)"
    by (simp add: sub_special_space)
  then have "collapse_ws (sub_special s # map sub_special r') =
      CHR '' '' # collapse_ws (dropWhile is_space (map sub_special r'))" by simp
  also have "dropWhile is_space (map sub_special r') =
      map sub_special (dropWhile (\<lambda>c. \<not> is_word c) r')"
    by (rule dropWhile_space_sub)
  also from s have "dropWhile (\<lambda>c. \<not> is_word c) r' = dropWhile (\<lambda>c. \<not> is_word c) (s # r')"
    by simp
  finally show ?thesis by (simp only: r list.map)
qed

lemma dropWhile_word_hd:
  "dropWhile is_word cs \<noteq> [] \<Longrightarrow> \<not> is_word (hd (dropWhile is_word cs))"
  by (rule hd_dropWhile_not)

lemma normal_words_aux:
  "rstrip (collapse_ws (map sub_special (dropWhile (\<lambda>c. \<not> is_word c) s))) =
   join_blank (words_of s)"
proof (induction s rule: words_of.induct)
  case (1 s)
  show ?case
  proof (cases "dropWhile (\<lambda>c. \<not> is_word c) s")
    case Nil
    then have "words_of s = []" by (subst words_of.simps) (simp only: list.case)
    then show ?thesis by (simp add: Nil rstrip_def)
  next
    case (Cons c cs)
    let ?w = "c # takeWhile is_word cs"
    let ?r = "dropWhile is_word cs"
    let ?y = "collapse_ws (map sub_special (dropWhile (\<lambda>c. \<not> is_word c) ?r))"
    from Cons have "dropWhile (\<lambda>c. \<not> is_word c) s \<noteq> []"
      by (simp only: list.distinct not_False_eq_True)
    then have "\<not> \<not> is_word (hd (dropWhile (\<lambda>c. \<not> is_word c) s))"
      by (rule hd_dropWhile_not)
    then have c: "is_word c" by (simp only: Cons list.sel not_not not_False_eq_True)
    have tw: "words_of s = ?w # words_of ?r"
      by (subst words_of.simps) (simp only: Cons list.case)
    from "1.IH" [OF Cons] have ih: "rstrip ?y = join_blank (words_of ?r)" .
    have cl: "clean ?w" using c by (rule clean_run)
    have wa: "\<forall>x\<in>set ?w. is_word x" using c by (auto dest: set_takeWhileD)
    have "c # cs = ?w @ ?r" by simp
    then have "map sub_special (c # cs) = map sub_special ?w @ map sub_special ?r"
      by (simp only: map_append [symmetric])
    also from wa have "map sub_special ?w = ?w" by (rule map_sub_word)
    finally have "collapse_ws (map sub_special (c # cs)) =
        ?w @ collapse_ws (map sub_special ?r)"
      using clean_no_space [OF cl] by (simp only: collapse_ws_clean)
    then have lhs: "rstrip (collapse_ws (map sub_special (dropWhile (\<lambda>c. \<not> is_word c) s))) =
        rstrip (?w @ collapse_ws (map sub_special ?r))"
      by (simp only: Cons)
    show ?thesis
    proof (cases "?r = []")
      case True
      then have "words_of ?r = []" by (simp only: words_of_Nil)
      with tw have r: "join_blank (words_of s) = ?w" by simp
      from cl have "rstrip ?w = ?w"
        by (intro rstrip_clean clean_last) (simp_all add: clean_def)
      with lhs True r show ?thesis by (simp only: list.map collapse_ws.simps append_Nil2)
    next
      case False
      then have "\<not> is_word (hd ?r)" by (rule dropWhile_word_hd)
      with False have "collapse_ws (map sub_special ?r) = CHR '' '' # ?y"
        by (rule collapse_ws_separator)
      with lhs have "rstrip (collapse_ws (map sub_special (dropWhile (\<lambda>c. \<not> is_word c) s))) =
          rstrip (?w @ CHR '' '' # ?y)" by (simp only:)
      also have "\<dots> = (if rstrip ?y = [] then ?w else ?w @ CHR '' '' # rstrip ?y)"
        using cl by (rule rstrip_word_blank)
      also have "\<dots> = (if words_of ?r = [] then ?w
          else ?w @ CHR '' '' # join_blank (words_of ?r))"
        using join_blank_Nil_iff [OF words_of_clean, of ?r] by (simp only: ih)
      also have "\<dots> = join_blank (?w # words_of ?r)"
        by (simp only: join_blank_Cons)
      finally show ?thesis by (simp only: tw)
    qed
  qed
qed

lemma normal_words: "strip (collapse_ws (map sub_special s)) = join_blank (words_of s)"
proof -
  have "strip (collapse_ws (map sub_special s)) =
      rstrip (dropWhile is_space (collapse_ws (map sub_special s)))"
    by (simp only: strip_rstrip)
  also have "\<dots> = join_blank (words_of s)"
    by (simp only: dropWhile_collapse_ws dropWhile_space_sub normal_words_aux)
  finally show ?thesis .
qed

lemma fingerprint_title_words:
  "fingerprint_title (Some t) = (if t = [] then None else Some (join_blank (title_words t)))"
  by (simp add: fingerprint_title_def title_words_def normal_words)

lemma words_of_clean_word:
  assumes w: "clean w" and r: "r = [] \<or> \<not> is_word (hd r)"
  shows "words_of (w @ r) = w # words_of r"
proof -
  from w obtain c cs where wc: "w = c # cs" by (cases w) (simp_all add: clean_def)
  from w wc have c: "is_word c" and cs: "\<forall>x\<in>set cs. is_word x"
    by (simp_all add: clean_def)
  from r have t0: "takeWhile is_word r = []" by (cases r) simp_all
  from r have d0: "dropWhile is_word r = r" by (cases r) simp_all
  from cs have t: "takeWhile is_word (cs @ r) = cs"
    by (simp add: takeWhile_append2 t0)
  from cs have d: "dropWhile is_word (cs @ r) = r"
    by (simp add: dropWhile_append2 d0)
  from c have "words_of (c # (cs @ r)) =
      (c # takeWhile is_word (cs @ r)) # words_of (dropWhile is_word (cs @ r))"
    by (rule words_of_word)
  then show ?thesis
    by (simp only: t d wc append_Cons)
qed

lemma words_of_join:
  "\<forall>w\<in>set ws. clean w \<Longrightarrow> words_of (join_blank ws) = ws"
proof (induction ws rule: join_blank.induct)
  case 1
  show ?case by (simp add: words_of_Nil)
next
  case (2 w)
  then have "clean w" by simp
  from words_of_clean_word [OF this, of "[]"] show ?case
    by (simp add: words_of_Nil)
next
  case (3 w v ws)
  then have w: "clean w" and rest: "\<forall>x\<in>set (v # ws). clean x" by simp_all
  have "words_of (w @ CHR '' '' # join_blank (v # ws)) =
      w # words_of (CHR '' '' # join_blank (v # ws))"
    using w by (rule words_of_clean_word) (simp add: blank_not_word)
  also have "words_of (CHR '' '' # join_blank (v # ws)) = words_of (join_blank (v # ws))"
    using blank_not_word by (rule words_of_skip)
  also have "\<dots> = v # ws" using rest by (rule "3.IH")
  finally show ?case by simp
qed

lemma lower_clean: "clean w \<Longrightarrow> lower w = w"
  by (simp add: lower_def clean_def lower_char_word map_idI)

lemma lower_join: "\<forall>w\<in>set ws. clean w \<Longrightarrow> lower (join_blank ws) = join_blank ws"
proof (induction ws rule: join_blank.induct)
  case 1
  show ?case by (simp add: lower_def)
next
  case (2 w)
  then show ?case by (simp add: lower_clean)
next
  case (3 w v ws)
  then have w: "lower w = w" and rest: "lower (join_blank (v # ws)) = join_blank (v # ws)"
    by (simp_all add: lower_clean)
  have "lower (w @ CHR '' '' # join_blank (v # ws)) =
      lower w @ lower_char (CHR '' '') # lower (join_blank (v # ws))"
    by (simp add: lower_def)
  then show ?case by (simp only: w rest lower_char_blank join_blank.simps)
qed

lemma fingerprint_title_idem:
  assumes "fingerprint_title x = Some v" and "v \<noteq> []"
  shows "fingerprint_title (Some v) = Some v"
proof -
  from assms(1) obtain t where t: "x = Some t" "t \<noteq> []"
    by (auto simp: fingerprint_title_def split: option.splits if_splits)
  with assms(1) have v: "v = join_blank (title_words t)"
    by (simp add: fingerprint_title_words)
  have cl: "\<forall>w\<in>set (title_words t). clean w"
    unfolding title_words_def by (rule words_of_clean)
  from cl have "lower v = v" unfolding v by (rule lower_join)
  then have "title_words v = words_of v" by (simp add: title_words_def)
  also from cl have "\<dots> = title_words t" unfolding v by (rule words_of_join)
  finally show ?thesis using assms(2) v by (simp add: fingerprint_title_words)
qed

text \<open>
  Claim C8, as the code has it. \<open>normalize_sku\<close> and \<open>fingerprint_title\<close> are
  idempotent on their non-empty results: when the function returns a non-empty string, it
  returns the same string again on that string.
\<close>

theorem normalize_idempotent:
  "(normalize_sku x = Some v \<and> v \<noteq> [] \<longrightarrow> normalize_sku (Some v) = Some v) \<and>
   (fingerprint_title y = Some w \<and> w \<noteq> [] \<longrightarrow> fingerprint_title (Some w) = Some w)"
  using normalize_sku_idem fingerprint_title_idem by blast

theorem normalize_idempotent_witness:
  "normalize_sku (Some '' mak-dJr186 '') = Some ''MAK-DJR186'' \<and>
   normalize_sku (Some ''MAK-DJR186'') = Some ''MAK-DJR186'' \<and>
   fingerprint_title (Some ''DeWalt Drill!!'') = Some ''dewalt drill'' \<and>
   fingerprint_title (Some ''dewalt drill'') = Some ''dewalt drill''"
proof -
  have a: "normalize_sku (Some '' mak-dJr186 '') = Some ''MAK-DJR186''" by code_simp
  have b: "fingerprint_title (Some ''DeWalt Drill!!'') = Some ''dewalt drill''" by code_simp
  have c: "''MAK-DJR186'' \<noteq> []" "''dewalt drill'' \<noteq> []" by simp_all
  from normalize_idempotent [of "Some '' mak-dJr186 ''" "''MAK-DJR186''"
      "Some ''DeWalt Drill!!''" "''dewalt drill''"] a b c
  show ?thesis by blast
qed

text \<open>
  An input of white space only is not caught by the test for an empty input, and its result
  is the empty string, on which the function returns \<open>None\<close>; the same holds for a title
  of punctuation only.
\<close>

theorem normalize_blank_not_idempotent:
  "normalize_sku (Some '' '') = Some [] \<and> normalize_sku (Some []) = None \<and>
   fingerprint_title (Some ''!!!'') = Some [] \<and> fingerprint_title (Some []) = None"
  by code_simp

text \<open>
  Claim C9, as the code has it. What \<open>fingerprint_title\<close> does after it has lower-cased the
  title turns any text into its words joined by single blanks, a word being a maximal run
  of the characters \<open>a\<close> to \<open>z\<close> and \<open>0\<close> to \<open>9\<close>. So the fingerprint of a non-empty title
  is the words of the lower-cased title joined by single blanks, and two non-empty titles
  have the same fingerprint exactly when their lower-cased forms have the same words: the
  case of the letters, the choice of the characters between and around the words and their
  number do not matter, a separator inside a word does. The words are never empty and
  contain word characters only. The two titles of the specification have the same
  fingerprint.
\<close>

theorem fingerprint_same_words:
  "strip (collapse_ws (map sub_special s)) = join_blank (words_of s) \<and>
   (\<forall>w\<in>set (words_of s). w \<noteq> [] \<and> (\<forall>c\<in>set w. is_word c)) \<and>
   fingerprint_title (Some t) =
     (if t = [] then None else Some (join_blank (words_of (lower t)))) \<and>
   (t \<noteq> [] \<and> t' \<noteq> [] \<longrightarrow>
      (fingerprint_title (Some t) = fingerprint_title (Some t')) =
      (words_of (lower t) = words_of (lower t'))) \<and>
   fingerprint_title (Some ''DeWalt Drill!!'') = fingerprint_title (Some ''dewalt   drill'')"
proof (intro conjI impI)
  show "strip (collapse_ws (map sub_special s)) = join_blank (words_of s)"
    by (rule normal_words)
  show "\<forall>w\<in>set (words_of s). w \<noteq> [] \<and> (\<forall>c\<in>set w. is_word c)"
    using words_of_clean [of s] by (simp add: clean_def)
  show "fingerprint_title (Some t) =
     (if t = [] then None else Some (join_blank (words_of (lower t))))"
    by (simp only: fingerprint_title_words title_words_def)
  show "fingerprint_title (Some ''DeWalt Drill!!'') = fingerprint_title (Some ''dewalt   drill'')"
    by code_simp
next
  assume "t \<noteq> [] \<and> t' \<noteq> []"
  then have f: "fingerprint_title (Some t) = Some (join_blank (words_of (lower t)))"
    "fingerprint_title (Some t') = Some (join_blank (words_of (lower t')))"
    by (simp_all add: fingerprint_title_words title_words_def)
  show "(fingerprint_title (Some t) = fingerprint_title (Some t')) =
      (words_of (lower t) = words_of (lower t'))"
  proof
    assume "fingerprint_title (Some t) = fingerprint_title (Some t')"
    with f have "join_blank (words_of (lower t)) = join_blank (words_of (lower t'))" by simp
    then have "words_of (join_blank (words_of (lower t))) =
        words_of (join_blank (words_of (lower t')))" by simp
    then show "words_of (lower t) = words_of (lower t')"
      by (simp only: words_of_join [OF words_of_clean])
  next
    assume "words_of (lower t) = words_of (lower t')"
    with f show "fingerprint_title (Some t) = fingerprint_title (Some t')" by simp
  qed
qed

theorem fingerprint_same_words_witness:
  "words_of (lower ''DeWalt Drill!!'') = [''dewalt'', ''drill''] \<and>
   words_of (lower ''dewalt   drill'') = [''dewalt'', ''drill''] \<and>
   fingerprint_title (Some ''DeWalt Drill!!'') = fingerprint_title (Some ''dewalt   drill'') \<and>
   fingerprint_title (Some ''DeWalt Drill!!'') = Some ''dewalt drill'' \<and>
   is_word (CHR ''d'')"
proof -
  have a: "words_of (lower ''DeWalt Drill!!'') = [''dewalt'', ''drill'']" by code_simp
  have b: "words_of (lower ''dewalt   drill'') = [''dewalt'', ''drill'']" by code_simp
  have n: "''DeWalt Drill!!'' \<noteq> []" "''dewalt   drill'' \<noteq> []" by simp_all
  have j: "join_blank [''dewalt'', ''drill''] = ''dewalt drill''" by simp
  note th = fingerprint_same_words [of "lower ''DeWalt Drill!!''" "''DeWalt Drill!!''"
      "''dewalt   drill''"]
  from a b have w: "words_of (lower ''DeWalt Drill!!'') = words_of (lower ''dewalt   drill'')"
    by (simp only:)
  from th n w
  have e: "fingerprint_title (Some ''DeWalt Drill!!'') = fingerprint_title (Some ''dewalt   drill'')"
    by blast
  from th have "fingerprint_title (Some ''DeWalt Drill!!'') =
      (if ''DeWalt Drill!!'' = [] then None
       else Some (join_blank (words_of (lower ''DeWalt Drill!!''))))"
    by blast
  then have f: "fingerprint_title (Some ''DeWalt Drill!!'') = Some ''dewalt drill''"
    by (simp only: a j n if_False)
  from th have "\<forall>w\<in>set (words_of (lower ''DeWalt Drill!!'')). w \<noteq> [] \<and> (\<forall>c\<in>set w. is_word c)"
    by blast
  then have g: "is_word (CHR ''d'')"
    by (simp only: a) simp
  from a b e f g show ?thesis by (intro conjI)
qed

text \<open>
  A separator inside a word is not removed but replaced by a blank: \<open>a-b\<close> and \<open>a b\<close>
  have the fingerprint \<open>a b\<close>, and \<open>ab\<close> has the fingerprint \<open>ab\<close>.
\<close>

theorem fingerprint_separator_matters:
  "fingerprint_title (Some ''a-b'') = Some ''a b'' \<and>
   fingerprint_title (Some ''a b'') = Some ''a b'' \<and>
   fingerprint_title (Some ''ab'') = Some ''ab''"
  by code_simp

end
